theory Spec2Isabelle
  imports Complex_Main "HOL-Library.Sublist"
begin

section \<open>Python values used by the three modules\<close>

text \<open>
  Python renders an integer inside an f-string with \<open>str\<close>: decimal digits, most
  significant first, and a leading minus sign for a negative number.
\<close>

fun str_nat :: "nat \<Rightarrow> string" where
  "str_nat n =
     (if n < 10 then [''0123456789'' ! n]
      else str_nat (n div 10) @ [''0123456789'' ! (n mod 10)])"

declare str_nat.simps [simp del]

definition str_int :: "int \<Rightarrow> string" where
  "str_int i = (if i < 0 then CHR ''-'' # str_nat (nat (- i)) else str_nat (nat i))"

section \<open>utils/retry.py: retry with exponential backoff\<close>

text \<open>
  An exception is kept as its class, as far as the code can tell classes apart, and its
  message (what \<open>str(e)\<close> gives). \<open>Exception\<close> stands for \<open>Exception\<close> and every
  subclass of it that the wrapped function may raise; \<open>ValueError\<close>, \<open>OverflowError\<close>
  and \<open>OSError\<close> are the ones that computing the delay and \<open>time.sleep\<close> raise;
  \<open>BaseException\<close> stands for the classes that do not derive from \<open>Exception\<close>
  (\<open>KeyboardInterrupt\<close>, \<open>SystemExit\<close>, \<open>GeneratorExit\<close>), which
  \<open>except Exception\<close> does not catch.
\<close>

datatype exn =
    Exception string
  | ValueError string
  | OverflowError string
  | OSError string
  | BaseException string

fun is_Exception :: "exn \<Rightarrow> bool" where
  "is_Exception (BaseException m) = False"
| "is_Exception e = True"

fun str_exn :: "exn \<Rightarrow> string" where
  "str_exn (Exception m) = m"
| "str_exn (ValueError m) = m"
| "str_exn (OverflowError m) = m"
| "str_exn (OSError m) = m"
| "str_exn (BaseException m) = m"

text \<open>
  The numbers \<open>base_delay\<close> and \<open>max_delay\<close> are Python integers or floats. An integer
  is unbounded. A float is taken as the real number it stands for: floats here are
  finite, and the float operations of the wrapper are exact on them (a product with a
  power of two, a comparison), up to a product beyond the largest float, which the cap
  or \<open>time.sleep\<close> then treats as the real product is treated here.
\<close>

datatype pynum = PyInt int | PyFloat real

fun num_val :: "pynum \<Rightarrow> real" where
  "num_val (PyInt i) = of_int i"
| "num_val (PyFloat x) = x"

text \<open>
  \<open>base_delay * (2 ** retries)\<close>: the power is an integer. With an integer
  \<open>base_delay\<close> the product is an integer; with a float the power is first converted to
  a float, which raises \<open>OverflowError\<close> from \<open>2 ** 1024\<close> on.
\<close>

definition times_pow2 :: "pynum \<Rightarrow> nat \<Rightarrow> exn + pynum" where
  "times_pow2 base_delay retries =
     (case base_delay of
        PyInt i \<Rightarrow> Inr (PyInt (i * 2 ^ retries))
      | PyFloat x \<Rightarrow>
          if 1024 \<le> retries then Inl (OverflowError ''int too large to convert to float'')
          else Inr (PyFloat (x * 2 ^ retries)))"

text \<open>\<open>min(a, b)\<close> is \<open>b\<close> when \<open>b < a\<close> and \<open>a\<close> otherwise.\<close>

definition py_min :: "pynum \<Rightarrow> pynum \<Rightarrow> pynum" where
  "py_min a b = (if num_val b < num_val a then b else a)"

definition delay :: "pynum \<Rightarrow> pynum \<Rightarrow> nat \<Rightarrow> exn + pynum" where
  "delay base_delay max_delay retries =
     (case times_pow2 base_delay retries of
        Inl e \<Rightarrow> Inl e
      | Inr p \<Rightarrow> Inr (py_min p max_delay))"

text \<open>
  What a call of the wrapper does to the world: it invokes the wrapped function, logs
  warnings and sleeps. \<open>invocations\<close> counts the calls of the wrapped function made so
  far, \<open>warnings\<close> and \<open>sleeps\<close> list the messages given to \<open>logger.warning\<close> and the
  delays slept by \<open>time.sleep\<close>, in seconds, oldest first. \<open>sleep_max\<close> is the longest
  delay that the sleep call of the operating system accepts (on Linux the deadline has to
  stay in the time range of the kernel); it is taken as fixed during a call of the
  wrapper.

  The wrapped function is called with the same arguments every time, so all that the
  wrapper sees of it is the outcome of each call. It is modelled as the function from the
  number of calls made before to the outcome of the next call: \<open>Inr v\<close> when it returns
  \<open>v\<close>, \<open>Inl e\<close> when it raises \<open>e\<close>.
\<close>

record world =
  invocations :: nat
  warnings :: "string list"
  sleeps :: "real list"
  sleep_max :: real

definition invoke :: "(nat \<Rightarrow> exn + 'a) \<Rightarrow> world \<Rightarrow> (exn + 'a) \<times> world" where
  "invoke func w = (func (invocations w), w\<lparr>invocations := invocations w + 1\<rparr>)"

definition warning :: "string \<Rightarrow> world \<Rightarrow> world" where
  "warning msg w = w\<lparr>warnings := warnings w @ [msg]\<rparr>"

text \<open>
  \<open>time.sleep(d)\<close> first converts \<open>d\<close> to a number of nanoseconds in 64 bits, which
  raises \<open>OverflowError\<close> outside that range, then raises \<open>ValueError\<close> for a negative
  delay, and then sleeps, where the operating system may refuse a delay that is too
  long.
\<close>

definition in_time_range :: "real \<Rightarrow> bool" where
  "in_time_range d = (- (2 ^ 63) \<le> d * 10 ^ 9 \<and> d * 10 ^ 9 < 2 ^ 63)"

definition sleep :: "pynum \<Rightarrow> world \<Rightarrow> exn + world" where
  "sleep d w =
     (if \<not> in_time_range (num_val d) then
        Inl (OverflowError
          (case d of
             PyInt i \<Rightarrow> ''timestamp too large to convert to C _PyTime_t''
           | PyFloat x \<Rightarrow> ''timestamp out of range for platform time_t''))
      else if num_val d < 0 then Inl (ValueError ''sleep length must be non-negative'')
      else if sleep_max w < num_val d then Inl (OSError ''[Errno 22] Invalid argument'')
      else Inr (w\<lparr>sleeps := sleeps w @ [num_val d]\<rparr>))"

definition retrying_msg :: "string \<Rightarrow> exn \<Rightarrow> string" where
  "retrying_msg name e = ''Retrying '' @ name @ '' due to error: '' @ str_exn e"

definition failed_msg :: "string \<Rightarrow> int \<Rightarrow> string" where
  "failed_msg name max_retries =
     ''Function '' @ name @ '' failed after '' @ str_int max_retries @ '' retries.''"

text \<open>
  The \<open>while\<close> loop of \<open>wrapper\<close>, from the value \<open>retries\<close> of its counter. The counter
  starts at 0 and only grows, so it is a natural number; \<open>max_retries\<close> is any integer.
  \<open>name\<close> is \<open>func.__name__\<close>. An error of the delay or of \<open>time.sleep\<close> is raised
  inside the handler and leaves the wrapper.
\<close>

function retry_loop ::
  "string \<Rightarrow> (nat \<Rightarrow> exn + 'a) \<Rightarrow> int \<Rightarrow> pynum \<Rightarrow> pynum \<Rightarrow> nat \<Rightarrow> world \<Rightarrow>
     (exn + 'a) \<times> world"
where
  "retry_loop name func max_retries base_delay max_delay retries w =
     (if int retries < max_retries then
        (case invoke func w of
           (Inr v, w1) \<Rightarrow> (Inr v, w1)
         | (Inl e, w1) \<Rightarrow>
             if is_Exception e then
               (case delay base_delay max_delay retries of
                  Inl e' \<Rightarrow> (Inl e', warning (retrying_msg name e) w1)
                | Inr d \<Rightarrow>
                    (case sleep d (warning (retrying_msg name e) w1) of
                       Inl e' \<Rightarrow> (Inl e', warning (retrying_msg name e) w1)
                     | Inr w2 \<Rightarrow>
                         retry_loop name func max_retries base_delay max_delay
                           (retries + 1) w2))
             else (Inl e, w1))
      else (Inl (Exception (failed_msg name max_retries)), w))"
  by pat_completeness auto
termination
  by (relation "measure (\<lambda>(name, func, max_retries, base_delay, max_delay, retries, w).
        nat (max_retries - int retries))") auto

declare retry_loop.simps [simp del]

definition wrapper ::
  "string \<Rightarrow> (nat \<Rightarrow> exn + 'a) \<Rightarrow> int \<Rightarrow> pynum \<Rightarrow> pynum \<Rightarrow> world \<Rightarrow> (exn + 'a) \<times> world"
where
  "wrapper name func max_retries base_delay max_delay w =
     retry_loop name func max_retries base_delay max_delay 0 w"

text \<open>
  The example at the end of the module: \<open>fetch_data\<close> raises on every call and is wrapped
  with \<open>max_retries=3, base_delay=2, max_delay=10\<close>. \<open>world0\<close> is a world where nothing
  has happened yet, on a platform that sleeps up to \<open>10^9\<close> seconds.
\<close>

definition fetch_data :: "nat \<Rightarrow> exn + unit" where
  "fetch_data n = Inl (Exception ''Simulated network error'')"

definition world0 :: world where
  "world0 = \<lparr>invocations = 0, warnings = [], sleeps = [], sleep_max = 10 ^ 9\<rparr>"

text \<open>
  Notions used to state properties of the wrapper. The call of the wrapped function with
  index \<open>n\<close> fails when it raises an exception that \<open>except Exception\<close> catches.
  \<open>slept\<close> is the number of seconds \<open>min(base_delay * 2^retries, max_delay)\<close>, and
  \<open>sleepable\<close> says that this delay can be computed and is slept: no conversion
  overflows, and the delay is not negative, in the range of \<open>time.sleep\<close> and not too
  long for the operating system. \<open>after_failures\<close> is the world after \<open>k\<close> failed
  attempts, each followed by its warning and its sleep.
\<close>

definition fails :: "(nat \<Rightarrow> exn + 'a) \<Rightarrow> nat \<Rightarrow> bool" where
  "fails func n = (case func n of Inl e \<Rightarrow> is_Exception e | Inr v \<Rightarrow> False)"

definition slept :: "pynum \<Rightarrow> pynum \<Rightarrow> nat \<Rightarrow> real" where
  "slept base_delay max_delay retries =
     min (num_val base_delay * 2 ^ retries) (num_val max_delay)"

fun is_float :: "pynum \<Rightarrow> bool" where
  "is_float (PyInt i) = False"
| "is_float (PyFloat x) = True"

definition sleepable :: "pynum \<Rightarrow> pynum \<Rightarrow> real \<Rightarrow> nat \<Rightarrow> bool" where
  "sleepable base_delay max_delay longest retries =
     ((is_float base_delay \<longrightarrow> retries < 1024) \<and>
      0 \<le> slept base_delay max_delay retries \<and>
      in_time_range (slept base_delay max_delay retries) \<and>
      slept base_delay max_delay retries \<le> longest)"

definition after_failures ::
  "string \<Rightarrow> (nat \<Rightarrow> exn + 'a) \<Rightarrow> pynum \<Rightarrow> pynum \<Rightarrow> nat \<Rightarrow> world \<Rightarrow> world" where
  "after_failures name func base_delay max_delay k w =
     w\<lparr>invocations := invocations w + k,
       warnings := warnings w @
         map (\<lambda>i. retrying_msg name (projl (func (invocations w + i)))) [0..<k],
       sleeps := sleeps w @ map (slept base_delay max_delay) [0..<k]\<rparr>"

text \<open>
  Operations used as examples: \<open>always_7\<close> returns 7 on every call; \<open>flaky\<close> fails on
  its first four calls and \<open>flaky_1500\<close> on its first 1500 calls, and then they return
  the index of the call; \<open>disk_full\<close> fails on every call, like \<open>fetch_data\<close>, with
  another error.
\<close>

definition always_7 :: "nat \<Rightarrow> exn + nat" where
  "always_7 n = Inr 7"

definition flaky :: "nat \<Rightarrow> exn + nat" where
  "flaky n = (if n < 4 then Inl (Exception ''timeout'') else Inr n)"

definition flaky_1500 :: "nat \<Rightarrow> exn + nat" where
  "flaky_1500 n = (if n < 1500 then Inl (Exception ''timeout'') else Inr n)"

definition disk_full :: "nat \<Rightarrow> exn + unit" where
  "disk_full n = Inl (Exception ''disk full'')"

section \<open>config.py: settings from the environment\<close>

text \<open>
  The environment is a map from variable names to values, taken after \<open>load_dotenv()\<close>
  has run. \<open>os.getenv(k, d)\<close> is the value of \<open>k\<close>, or \<open>d\<close> when \<open>k\<close> is not set.
\<close>

type_synonym environ = "string \<rightharpoonup> string"

definition getenv :: "environ \<Rightarrow> string \<Rightarrow> string \<Rightarrow> string" where
  "getenv env k d = (case env k of None \<Rightarrow> d | Some v \<Rightarrow> v)"

text \<open>
  \<open>s.split(",")\<close>: the pieces of \<open>s\<close> between the commas, in order; \<open>acc\<close> holds the
  current piece, reversed.
\<close>

fun split_acc :: "char \<Rightarrow> string \<Rightarrow> string \<Rightarrow> string list" where
  "split_acc sep acc [] = [rev acc]"
| "split_acc sep acc (c # cs) =
     (if c = sep then rev acc # split_acc sep [] cs else split_acc sep (c # acc) cs)"

definition str_split :: "string \<Rightarrow> char \<Rightarrow> string list" where
  "str_split s sep = split_acc sep [] s"

text \<open>
  \<open>int(s)\<close> for a string: white space around the literal is dropped, then comes an
  optional sign and decimal digits, where single underscores may stand between digits.
  Characters are code points below 256; the white space that \<open>int\<close> drops among them
  is the tab to the carriage return, the space, U+0085 and U+00A0. The result is \<open>None\<close>
  where Python raises \<open>ValueError\<close>.
  The bound that newer versions of Python put on the number of digits is left out.
\<close>

definition is_space :: "char \<Rightarrow> bool" where
  "is_space c =
     (let n = (of_char c :: nat)
      in (9 \<le> n \<and> n \<le> 13) \<or> n = 32 \<or> n = 133 \<or> n = 160)"

definition is_digit :: "char \<Rightarrow> bool" where
  "is_digit c = (let n = (of_char c :: nat) in 48 \<le> n \<and> n \<le> 57)"

definition digit_val :: "char \<Rightarrow> nat" where
  "digit_val c = of_char c - 48"

definition strip :: "string \<Rightarrow> string" where
  "strip s = rev (dropWhile is_space (rev (dropWhile is_space s)))"

fun parse_digits :: "nat \<Rightarrow> string \<Rightarrow> nat option" where
  "parse_digits acc [] = Some acc"
| "parse_digits acc [c] =
     (if is_digit c then Some (acc * 10 + digit_val c) else None)"
| "parse_digits acc (c # d # ds) =
     (if is_digit c then parse_digits (acc * 10 + digit_val c) (d # ds)
      else if c = CHR ''_'' \<and> is_digit d then parse_digits (acc * 10 + digit_val d) ds
      else None)"

definition parse_unsigned :: "string \<Rightarrow> nat option" where
  "parse_unsigned s =
     (case s of
        [] \<Rightarrow> None
      | c # cs \<Rightarrow> if is_digit c then parse_digits (digit_val c) cs else None)"

definition py_int :: "string \<Rightarrow> int option" where
  "py_int s =
     (case strip s of
        [] \<Rightarrow> None
      | c # cs \<Rightarrow>
          if c = CHR ''-'' then map_option (\<lambda>n. - int n) (parse_unsigned cs)
          else if c = CHR ''+'' then map_option int (parse_unsigned cs)
          else map_option int (parse_unsigned (c # cs)))"

text \<open>
  Both errors of this module are \<open>ValueError\<close>s. \<open>InvalidLiteral s\<close> is the one that
  \<open>int(s)\<close> raises while the class body runs (its message is Python's, about the
  literal \<open>s\<close>); \<open>ValidationError m\<close> is the one that \<open>validate\<close> raises, with the
  message \<open>m\<close>.
\<close>

datatype config_error = InvalidLiteral string | ValidationError string

text \<open>
  \<open>int(os.getenv(k, d))\<close> with an integer default \<open>d\<close>: \<open>int\<close> gets the string of the
  environment, or \<open>d\<close> itself.
\<close>

definition int_getenv :: "environ \<Rightarrow> string \<Rightarrow> int \<Rightarrow> config_error + int" where
  "int_getenv env k d =
     (case env k of
        None \<Rightarrow> Inr d
      | Some s \<Rightarrow> (case py_int s of None \<Rightarrow> Inl (InvalidLiteral s) | Some i \<Rightarrow> Inr i))"

record config =
  ALPHA_VANTAGE_API_KEY :: string
  ALPHA_VANTAGE_BASE_URL :: string
  STOCK_SYMBOLS :: "string list"
  SERVER_URL :: string
  LOG_LEVEL :: string
  RETRY_COUNT :: int
  RETRY_DELAY :: int
  POLL_INTERVAL :: int

text \<open>
  The body of \<open>class Config\<close>, which runs once, when the module is imported: the
  attributes are computed from top to bottom, and the first \<open>int\<close> that fails ends the
  import with its error.
\<close>

definition load :: "environ \<Rightarrow> config_error + config" where
  "load env =
     (let api_key = getenv env ''ALPHA_VANTAGE_API_KEY'' ''your_default_api_key'';
          base_url = getenv env ''ALPHA_VANTAGE_BASE_URL'' ''https://www.alphavantage.co/query'';
          symbols = str_split (getenv env ''STOCK_SYMBOLS'' ''AAPL,GOOGL,MSFT,AMZN,TSLA'') CHR '','';
          server_url = getenv env ''SERVER_URL'' ''http://localhost:8000/api/v1/stocks'';
          log_level = getenv env ''LOG_LEVEL'' ''INFO''
      in case int_getenv env ''RETRY_COUNT'' 3 of
           Inl e \<Rightarrow> Inl e
         | Inr retry_count \<Rightarrow>
        (case int_getenv env ''RETRY_DELAY'' 5 of
           Inl e \<Rightarrow> Inl e
         | Inr retry_delay \<Rightarrow>
        (case int_getenv env ''POLL_INTERVAL'' 60 of
           Inl e \<Rightarrow> Inl e
         | Inr poll_interval \<Rightarrow>
             Inr \<lparr>ALPHA_VANTAGE_API_KEY = api_key,
                  ALPHA_VANTAGE_BASE_URL = base_url,
                  STOCK_SYMBOLS = symbols,
                  SERVER_URL = server_url,
                  LOG_LEVEL = log_level,
                  RETRY_COUNT = retry_count,
                  RETRY_DELAY = retry_delay,
                  POLL_INTERVAL = poll_interval\<rparr>)))"

definition validate :: "config \<Rightarrow> config_error + unit" where
  "validate c =
     (if ALPHA_VANTAGE_API_KEY c = [] then
        Inl (ValidationError ''ALPHA_VANTAGE_API_KEY is not set in the environment variables.'')
      else if STOCK_SYMBOLS c = [] then
        Inl (ValidationError ''STOCK_SYMBOLS is not set in the environment variables.'')
      else if SERVER_URL c = [] then
        Inl (ValidationError ''SERVER_URL is not set in the environment variables.'')
      else if RETRY_COUNT c < 0 then
        Inl (ValidationError ''RETRY_COUNT must be a non-negative integer.'')
      else if RETRY_DELAY c < 0 then
        Inl (ValidationError ''RETRY_DELAY must be a non-negative integer.'')
      else if POLL_INTERVAL c \<le> 0 then
        Inl (ValidationError ''POLL_INTERVAL must be a positive integer.'')
      else Inr ())"

text \<open>
  What a program does with the module: it imports it, which runs the class body, and then
  calls \<open>Config.validate()\<close>. When the import raises, there is no \<open>Config\<close> to validate.
\<close>

definition import_and_validate :: "environ \<Rightarrow> config_error + config" where
  "import_and_validate env =
     (case load env of
        Inl e \<Rightarrow> Inl e
      | Inr c \<Rightarrow> (case validate c of Inl e \<Rightarrow> Inl e | Inr u \<Rightarrow> Inr c))"


text \<open>
  Notions used to state properties of the configuration: the setting with the given name
  is outside its valid range in \<open>c\<close>; and the snapshot that the defaults give.
\<close>

definition offending :: "config \<Rightarrow> string \<Rightarrow> bool" where
  "offending c setting =
     (setting = ''ALPHA_VANTAGE_API_KEY'' \<and> ALPHA_VANTAGE_API_KEY c = [] \<or>
      setting = ''STOCK_SYMBOLS'' \<and> STOCK_SYMBOLS c = [] \<or>
      setting = ''SERVER_URL'' \<and> SERVER_URL c = [] \<or>
      setting = ''RETRY_COUNT'' \<and> RETRY_COUNT c < 0 \<or>
      setting = ''RETRY_DELAY'' \<and> RETRY_DELAY c < 0 \<or>
      setting = ''POLL_INTERVAL'' \<and> POLL_INTERVAL c \<le> 0)"

definition default_config :: config where
  "default_config =
     \<lparr>ALPHA_VANTAGE_API_KEY = ''your_default_api_key'',
      ALPHA_VANTAGE_BASE_URL = ''https://www.alphavantage.co/query'',
      STOCK_SYMBOLS = [''AAPL'', ''GOOGL'', ''MSFT'', ''AMZN'', ''TSLA''],
      SERVER_URL = ''http://localhost:8000/api/v1/stocks'',
      LOG_LEVEL = ''INFO'',
      RETRY_COUNT = 3,
      RETRY_DELAY = 5,
      POLL_INTERVAL = 60\<rparr>"

section \<open>utils/logger.py: a logger with a file and a console handler\<close>

text \<open>
  The part of Python's \<open>logging\<close> module that \<open>setup_logger\<close> and a later log call go
  through. A level is a number; \<open>check_level\<close> is the table of level names that
  \<open>setLevel\<close> accepts for a string, \<open>level_name\<close> is the name a record is printed with.
\<close>

definition check_level :: "string \<Rightarrow> nat option" where
  "check_level s =
     map_of [(''CRITICAL'', 50), (''FATAL'', 50), (''ERROR'', 40), (''WARN'', 30),
             (''WARNING'', 30), (''INFO'', 20), (''DEBUG'', 10), (''NOTSET'', 0)] s"

definition level_name :: "nat \<Rightarrow> string" where
  "level_name l =
     (if l = 50 then ''CRITICAL'' else if l = 40 then ''ERROR''
      else if l = 30 then ''WARNING'' else if l = 20 then ''INFO''
      else if l = 10 then ''DEBUG'' else if l = 0 then ''NOTSET''
      else ''Level '' @ str_nat l)"

record log_record =
  r_asctime :: string
  r_name :: string
  r_levelno :: nat
  r_message :: string

text \<open>
  The formatter of the module,
  \<open>"%(asctime)s - %(name)s - %(levelname)s - %(message)s"\<close>, applied to a record.
\<close>

definition format_record :: "log_record \<Rightarrow> string" where
  "format_record r =
     r_asctime r @ '' - '' @ r_name r @ '' - '' @ level_name (r_levelno r) @ '' - ''
       @ r_message r"

text \<open>
  A handler writes to a file, named by its path, or to the console (\<open>sys.stderr\<close>); it
  has a level and a formatter.
\<close>

datatype stream = FileStream string | Console

record handler =
  h_stream :: stream
  h_level :: nat
  h_formatter :: "log_record \<Rightarrow> string"

text \<open>
  A logger is the root logger or a logger with a name. It has a level, a list of
  handlers, the flag \<open>propagate\<close> and a reference to its parent, which only the root
  logger lacks.
\<close>

datatype ref = Root | Named string

record logger =
  lg_level :: nat
  lg_handlers :: "handler list"
  lg_propagate :: bool
  lg_parent :: "ref option"

text \<open>
  The manager keeps, for every name it has met, the logger of this name or a place
  holder with the loggers below this name that were created before it, in the order in
  which they were added.
\<close>

datatype entry = Logger logger | PlaceHolder "string list"

text \<open>
  The state of the process that logging reads and writes: the root logger, the
  dictionary of the manager, the lines of each file, the lines written to the console,
  and which paths can be opened for appending.
\<close>

record logging =
  root_logger :: logger
  loggerDict :: "string \<rightharpoonup> entry"
  files :: "string \<Rightarrow> string list"
  console :: "string list"
  can_open :: "string \<Rightarrow> bool"

fun logger_at :: "logging \<Rightarrow> ref \<Rightarrow> logger option" where
  "logger_at st Root = Some (root_logger st)"
| "logger_at st (Named n) =
     (case loggerDict st n of Some (Logger l) \<Rightarrow> Some l | _ \<Rightarrow> None)"

fun update_logger :: "ref \<Rightarrow> (logger \<Rightarrow> logger) \<Rightarrow> logging \<Rightarrow> logging" where
  "update_logger Root f st = st\<lparr>root_logger := f (root_logger st)\<rparr>"
| "update_logger (Named n) f st =
     (case loggerDict st n of
        Some (Logger l) \<Rightarrow> st\<lparr>loggerDict := (loggerDict st)(n \<mapsto> Logger (f l))\<rparr>
      | _ \<Rightarrow> st)"

declare logger_at.simps [simp del] update_logger.simps [simp del]

fun ref_name :: "ref \<Rightarrow> string" where
  "ref_name Root = ''root''"
| "ref_name (Named n) = n"

text \<open>A logger as its constructor leaves it.\<close>

definition new_logger :: logger where
  "new_logger = \<lparr>lg_level = 0, lg_handlers = [], lg_propagate = True, lg_parent = None\<rparr>"

text \<open>
  \<open>Manager._fixupParents\<close> goes through the prefixes of the name of a new logger that
  end before a dot, from the last dot leftwards; after a dot at \<open>i\<close> it searches on in
  the first \<open>i - 1\<close> characters, and it does not take the empty prefix.
  \<open>dotted_prefixes\<close> lists these prefixes in this order.
\<close>

fun rfind_dot :: "string \<Rightarrow> nat option" where
  "rfind_dot [] = None"
| "rfind_dot (c # cs) =
     (case rfind_dot cs of
        Some i \<Rightarrow> Some (Suc i)
      | None \<Rightarrow> if c = CHR ''.'' then Some 0 else None)"

function dotted_prefixes :: "string \<Rightarrow> string list" where
  "dotted_prefixes s =
     (case rfind_dot s of
        None \<Rightarrow> []
      | Some i \<Rightarrow> if 0 < i then take i s # dotted_prefixes (take (i - 1) s) else [])"
  by pat_completeness auto
termination
proof (relation "measure length")
  show "wf (measure length)" by simp
next
  fix s :: string and i
  assume "rfind_dot s = Some i" "0 < i"
  have bound: "rfind_dot t = Some j \<Longrightarrow> j < length t" for t j
    by (induction t arbitrary: j) (auto split: option.splits if_splits)
  from \<open>rfind_dot s = Some i\<close> have "i < length s" by (rule bound)
  with \<open>0 < i\<close> show "(take (i - 1) s, s) \<in> measure length" by simp
qed

declare dotted_prefixes.simps [simp del]

text \<open>
  The loop of \<open>_fixupParents\<close> for the logger \<open>a\<close> over the prefixes that are left: a
  prefix that the dictionary does not have gets a place holder with \<open>a\<close>, a place
  holder gets \<open>a\<close> added, and the first prefix that is a logger ends the loop and is the
  parent. When no prefix is a logger, the parent is the root logger.
\<close>

fun fixup_parents_from ::
  "string \<Rightarrow> string list \<Rightarrow> (string \<rightharpoonup> entry) \<Rightarrow> ref \<times> (string \<rightharpoonup> entry)" where
  "fixup_parents_from a [] d = (Root, d)"
| "fixup_parents_from a (s # ss) d =
     (case d s of
        None \<Rightarrow> fixup_parents_from a ss (d(s \<mapsto> PlaceHolder [a]))
      | Some (Logger l) \<Rightarrow> (Named s, d)
      | Some (PlaceHolder cs) \<Rightarrow>
          fixup_parents_from a ss
            (d(s \<mapsto> PlaceHolder (if a \<in> set cs then cs else cs @ [a]))))"

definition fixupParents :: "string \<Rightarrow> logging \<Rightarrow> logging" where
  "fixupParents a st =
     (case fixup_parents_from a (dotted_prefixes a) (loggerDict st) of
        (p, d) \<Rightarrow>
          update_logger (Named a) (\<lambda>l. l\<lparr>lg_parent := Some p\<rparr>) (st\<lparr>loggerDict := d\<rparr>))"

text \<open>
  \<open>Manager._fixupChildren\<close> for the new logger \<open>a\<close> and the loggers \<open>c\<close> of the place
  holder it replaces: when the name of the parent of \<open>c\<close> does not begin with the name
  \<open>a\<close>, the parent of \<open>c\<close> becomes the parent of \<open>a\<close>, and \<open>a\<close> the parent of \<open>c\<close>.
  A place holder only ever holds loggers, which have a parent.
\<close>

fun fixupChildren :: "string \<Rightarrow> string list \<Rightarrow> logging \<Rightarrow> logging" where
  "fixupChildren a [] st = st"
| "fixupChildren a (c # cs) st =
     fixupChildren a cs
       (case logger_at st (Named c) of
          None \<Rightarrow> st
        | Some lc \<Rightarrow>
            (case lg_parent lc of
               None \<Rightarrow> st
             | Some p \<Rightarrow>
                 if take (length a) (ref_name p) \<noteq> a then
                   update_logger (Named c) (\<lambda>l. l\<lparr>lg_parent := Some (Named a)\<rparr>)
                     (update_logger (Named a) (\<lambda>l. l\<lparr>lg_parent := Some p\<rparr>) st)
                 else st))"

text \<open>
  \<open>logging.getLogger(name)\<close>: the root logger for the empty name and for \<open>"root"\<close>;
  otherwise the logger that the dictionary has for the name, or a new logger, which
  takes the place of a place holder if there is one.
\<close>

definition getLogger :: "string \<Rightarrow> logging \<Rightarrow> ref \<times> logging" where
  "getLogger name st =
     (if name = [] \<or> name = ''root'' then (Root, st)
      else
        (case loggerDict st name of
           Some (Logger l) \<Rightarrow> (Named name, st)
         | Some (PlaceHolder cs) \<Rightarrow>
             (Named name,
              fixupParents name
                (fixupChildren name cs
                   (st\<lparr>loggerDict := (loggerDict st)(name \<mapsto> Logger new_logger)\<rparr>)))
         | None \<Rightarrow>
             (Named name,
              fixupParents name
                (st\<lparr>loggerDict := (loggerDict st)(name \<mapsto> Logger new_logger)\<rparr>))))"

text \<open>
  \<open>Logger.hasHandlers\<close>: walk from the logger up the parents, stop with \<open>True\<close> at the
  first logger that has a handler and with \<open>False\<close> at one that does not propagate or
  has no parent. The walk follows the references, so it is only a result where it ends
  (\<open>None\<close> stands for a walk that does not end, and for a reference to no logger).
\<close>

partial_function (option) hasHandlers :: "logging \<Rightarrow> ref \<Rightarrow> bool option" where
  "hasHandlers st c =
     (case logger_at st c of
        None \<Rightarrow> None
      | Some l \<Rightarrow>
          if lg_handlers l \<noteq> [] then Some True
          else if \<not> lg_propagate l then Some False
          else (case lg_parent l of None \<Rightarrow> Some False | Some p \<Rightarrow> hasHandlers st p))"

definition setLevel :: "ref \<Rightarrow> nat \<Rightarrow> logging \<Rightarrow> logging" where
  "setLevel c l st = update_logger c (\<lambda>lg. lg\<lparr>lg_level := l\<rparr>) st"

text \<open>
  \<open>addHandler\<close> appends a handler that is not yet in the list. It is only ever given
  a handler that was just created, which is a new object and so in no list.
\<close>

definition addHandler :: "ref \<Rightarrow> handler \<Rightarrow> logging \<Rightarrow> logging" where
  "addHandler c h st = update_logger c (\<lambda>lg. lg\<lparr>lg_handlers := lg_handlers lg @ [h]\<rparr>) st"

text \<open>
  The errors \<open>setup_logger\<close> lets through: the \<open>ValueError\<close> of \<open>setLevel\<close> for a
  string that is no level name, and the \<open>OSError\<close> of \<open>FileHandler\<close> for a file that
  cannot be opened.
\<close>

datatype logging_error = UnknownLevel string | CannotOpen string

text \<open>
  The two handlers that \<open>setup_logger\<close> creates: a \<open>FileHandler\<close> for \<open>log_file\<close>
  and a \<open>StreamHandler\<close> for the console, each with the level and the formatter set.
\<close>

definition file_handler :: "string \<Rightarrow> nat \<Rightarrow> handler" where
  "file_handler log_file l =
     \<lparr>h_stream = FileStream log_file, h_level = l, h_formatter = format_record\<rparr>"

definition console_handler :: "nat \<Rightarrow> handler" where
  "console_handler l = \<lparr>h_stream = Console, h_level = l, h_formatter = format_record\<rparr>"

text \<open>
  \<open>setup_logger(name, log_file, level)\<close>. The result is the error raised or the logger
  returned, with the state left behind; there is none when \<open>hasHandlers\<close> has none.
\<close>

definition setup_logger ::
  "string \<Rightarrow> string \<Rightarrow> string \<Rightarrow> logging \<Rightarrow> ((logging_error + ref) \<times> logging) option"
where
  "setup_logger name log_file level st =
     (case getLogger name st of
        (lg, st0) \<Rightarrow>
          (case check_level level of
             None \<Rightarrow> Some (Inl (UnknownLevel level), st0)
           | Some l \<Rightarrow>
               let st1 = setLevel lg l st0 in
               (case hasHandlers st1 lg of
                  None \<Rightarrow> None
                | Some True \<Rightarrow> Some (Inr lg, st1)
                | Some False \<Rightarrow>
                    if can_open st1 log_file then
                      Some (Inr lg,
                        addHandler lg (console_handler l)
                          (addHandler lg (file_handler log_file l) st1))
                    else Some (Inl (CannotOpen log_file), st1))))"

text \<open>
  A log call on a logger, \<open>logger.log(levelno, message)\<close> at the time \<open>asctime\<close>: the
  record is made when the level is enabled for the logger, and is then handed to the
  handlers of the logger and of its parents, as far as the loggers propagate. Each
  handler writes the records at or above its own level. When no handler was found at
  all, the handler of last resort prints the message of a record at or above
  \<open>WARNING\<close> to the console. Loggers here are not disabled and have no filters, and
  \<open>logging.disable\<close> is at its default 0, which still disables the level 0 itself.
\<close>

partial_function (option) getEffectiveLevel :: "logging \<Rightarrow> ref \<Rightarrow> nat option" where
  "getEffectiveLevel st c =
     (case logger_at st c of
        None \<Rightarrow> None
      | Some l \<Rightarrow>
          if lg_level l \<noteq> 0 then Some (lg_level l)
          else (case lg_parent l of None \<Rightarrow> Some 0 | Some p \<Rightarrow> getEffectiveLevel st p))"

definition emit :: "handler \<Rightarrow> log_record \<Rightarrow> logging \<Rightarrow> logging" where
  "emit h r st =
     (case h_stream h of
        FileStream p \<Rightarrow> st\<lparr>files := (files st)(p := files st p @ [h_formatter h r])\<rparr>
      | Console \<Rightarrow> st\<lparr>console := console st @ [h_formatter h r]\<rparr>)"

fun handle_all :: "handler list \<Rightarrow> log_record \<Rightarrow> logging \<Rightarrow> logging" where
  "handle_all [] r st = st"
| "handle_all (h # hs) r st =
     handle_all hs r (if h_level h \<le> r_levelno r then emit h r st else st)"

partial_function (option) call_handlers_from ::
  "ref \<Rightarrow> log_record \<Rightarrow> nat \<Rightarrow> logging \<Rightarrow> (nat \<times> logging) option" where
  "call_handlers_from c r found st =
     (case logger_at st c of
        None \<Rightarrow> None
      | Some l \<Rightarrow>
          let st1 = handle_all (lg_handlers l) r st;
              found1 = found + length (lg_handlers l)
          in if \<not> lg_propagate l then Some (found1, st1)
             else (case lg_parent l of
                     None \<Rightarrow> Some (found1, st1)
                   | Some p \<Rightarrow> call_handlers_from p r found1 st1))"

definition callHandlers :: "ref \<Rightarrow> log_record \<Rightarrow> logging \<Rightarrow> logging option" where
  "callHandlers c r st =
     (case call_handlers_from c r 0 st of
        None \<Rightarrow> None
      | Some (found, st1) \<Rightarrow>
          Some (if found = 0 \<and> 30 \<le> r_levelno r
                then st1\<lparr>console := console st1 @ [r_message r]\<rparr>
                else st1))"

definition logger_log ::
  "ref \<Rightarrow> nat \<Rightarrow> string \<Rightarrow> string \<Rightarrow> logging \<Rightarrow> logging option" where
  "logger_log c levelno asctime message st =
     (case getEffectiveLevel st c of
        None \<Rightarrow> None
      | Some l \<Rightarrow>
          if 0 < levelno \<and> l \<le> levelno then
            callHandlers c
              \<lparr>r_asctime = asctime, r_name = ref_name c, r_levelno = levelno,
               r_message = message\<rparr> st
          else Some st)"

text \<open>
  What holds of the loggers in every state that the manager builds: the root logger has
  no parent; a logger with a name has a parent, which is the root logger or a logger with
  a shorter name; and the loggers of a place holder have longer names than the place
  holder. \<open>wf_but a\<close> is this state of affairs while the logger \<open>a\<close> is being created:
  \<open>a\<close> is in the dictionary, and its parent is not settled yet.
\<close>

definition parent_ok :: "(string \<rightharpoonup> entry) \<Rightarrow> string \<Rightarrow> logger \<Rightarrow> bool" where
  "parent_ok d n l =
     (lg_parent l = Some Root \<or>
      (\<exists>q lq. lg_parent l = Some (Named q) \<and> length q < length n \<and> d q = Some (Logger lq)))"

definition holders_ok :: "(string \<rightharpoonup> entry) \<Rightarrow> bool" where
  "holders_ok d = (\<forall>n cs. d n = Some (PlaceHolder cs) \<longrightarrow> (\<forall>c\<in>set cs. length n < length c))"

definition wf_logging :: "logging \<Rightarrow> bool" where
  "wf_logging st =
     (lg_parent (root_logger st) = None \<and>
      (\<forall>n l. loggerDict st n = Some (Logger l) \<longrightarrow> parent_ok (loggerDict st) n l) \<and>
      holders_ok (loggerDict st))"

definition wf_but :: "string \<Rightarrow> logging \<Rightarrow> bool" where
  "wf_but a st =
     (lg_parent (root_logger st) = None \<and>
      (\<exists>l. loggerDict st a = Some (Logger l)) \<and>
      (\<forall>n l. n \<noteq> a \<and> loggerDict st n = Some (Logger l) \<longrightarrow> parent_ok (loggerDict st) n l) \<and>
      holders_ok (loggerDict st))"

text \<open>
  The logging state of a process that has not configured logging: the root logger at
  \<open>WARNING\<close>, no other logger, empty files, every path can be opened.
\<close>

definition logging0 :: logging where
  "logging0 =
     \<lparr>root_logger =
        \<lparr>lg_level = 30, lg_handlers = [], lg_propagate = True, lg_parent = None\<rparr>,
      loggerDict = Map.empty,
      files = (\<lambda>p. []),
      console = [],
      can_open = (\<lambda>p. True)\<rparr>"

text \<open>
  \<open>logging_X l\<close> is such a process after \<open>setup_logger("X", "app.log", "INFO")\<close> and
  a later \<open>setLevel\<close> to \<open>l\<close>: the logger \<open>X\<close> has the level \<open>l\<close> and the two
  handlers at \<open>INFO\<close>. \<open>logger_ref\<close> is the logger that \<open>getLogger\<close> gives for a
  name, and \<open>ref_size\<close> measures a logger by its name.
\<close>

definition logging_X :: "nat \<Rightarrow> logging" where
  "logging_X l =
     logging0\<lparr>loggerDict :=
       [''X'' \<mapsto> Logger \<lparr>lg_level = l,
          lg_handlers = [file_handler ''app.log'' 20, console_handler 20],
          lg_propagate = True, lg_parent = Some Root\<rparr>]\<rparr>"

definition logger_ref :: "string \<Rightarrow> ref" where
  "logger_ref name = (if name = [] \<or> name = ''root'' then Root else Named name)"

fun ref_size :: "ref \<Rightarrow> nat" where
  "ref_size Root = 0"
| "ref_size (Named n) = Suc (length n)"

section \<open>Properties of the retry wrapper\<close>

subsection \<open>The delay and the sleep\<close>

lemma delay_slept: "delay b m r = Inr d \<Longrightarrow> num_val d = slept b m r"
  by (cases b)
    (auto simp: delay_def times_pow2_def py_min_def slept_def split: if_splits)

lemma delay_defined: "(is_float b \<longrightarrow> r < 1024) \<Longrightarrow> \<exists>d. delay b m r = Inr d"
  by (cases b) (auto simp: delay_def times_pow2_def)

lemma delay_overflow:
  "1024 \<le> r \<Longrightarrow>
   delay (PyFloat x) m r = Inl (OverflowError ''int too large to convert to float'')"
  by (simp add: delay_def times_pow2_def)

lemma sleep_sleepable:
  assumes "sleepable b m (sleep_max w) r" "delay b m r = Inr d"
  shows "sleep d w = Inr (w\<lparr>sleeps := sleeps w @ [slept b m r]\<rparr>)"
proof -
  have "num_val d = slept b m r" using assms(2) by (rule delay_slept)
  with assms(1) show ?thesis by (simp add: sleep_def sleepable_def)
qed

lemma delay_float_small: "delay b m r = Inr d \<Longrightarrow> is_float b \<longrightarrow> r < 1024"
  by (cases b) (auto simp: delay_def times_pow2_def split: if_splits)

lemma sleep_not_sleepable:
  assumes "\<not> sleepable b m (sleep_max w) r" "delay b m r = Inr d"
  obtains e where "sleep d w = Inl e"
proof -
  have "num_val d = slept b m r" using assms(2) by (rule delay_slept)
  moreover have "is_float b \<longrightarrow> r < 1024" using assms(2) by (rule delay_float_small)
  ultimately have "\<exists>e. sleep d w = Inl e"
    using assms(1) by (auto simp: sleep_def sleepable_def)
  then show ?thesis using that by blast
qed

lemma sleepable_bounded:
  assumes "0 \<le> num_val b" "0 \<le> num_val m" "in_time_range (num_val m)"
    "num_val m \<le> longest" "is_float b \<longrightarrow> r < 1024"
  shows "sleepable b m longest r"
proof -
  have "0 \<le> slept b m r" "slept b m r \<le> num_val m"
    using assms(1,2) by (simp_all add: slept_def)
  moreover have "in_time_range (slept b m r)"
  proof -
    have "slept b m r * 10 ^ 9 \<le> num_val m * 10 ^ 9"
      using \<open>slept b m r \<le> num_val m\<close> by (intro mult_right_mono) simp_all
    moreover have "0 \<le> slept b m r * 10 ^ 9"
      using \<open>0 \<le> slept b m r\<close> by simp
    ultimately show ?thesis
      using assms(3) unfolding in_time_range_def by linarith
  qed
  ultimately show ?thesis using assms(4,5) by (simp add: sleepable_def)
qed

subsection \<open>One pass through the loop\<close>

lemma retry_loop_exit:
  "\<not> int r < mr \<Longrightarrow>
   retry_loop name func mr b m r w = (Inl (Exception (failed_msg name mr)), w)"
  by (simp add: retry_loop.simps [of name func mr b m r w])

lemma retry_loop_return:
  "int r < mr \<Longrightarrow> func (invocations w) = Inr v \<Longrightarrow>
   retry_loop name func mr b m r w = (Inr v, w\<lparr>invocations := invocations w + 1\<rparr>)"
  by (simp add: retry_loop.simps [of name func mr b m r w] invoke_def)

lemma retry_loop_fail:
  assumes "int r < mr" "fails func (invocations w)" "sleepable b m (sleep_max w) r"
  shows "retry_loop name func mr b m r w =
   retry_loop name func mr b m (r + 1)
     (w\<lparr>invocations := invocations w + 1,
        warnings := warnings w @ [retrying_msg name (projl (func (invocations w)))],
        sleeps := sleeps w @ [slept b m r]\<rparr>)"
proof -
  from assms(2) obtain e where e: "func (invocations w) = Inl e" "is_Exception e"
    by (auto simp: fails_def split: sum.splits)
  from assms(3) obtain d where d: "delay b m r = Inr d"
    using delay_defined [of b r m] by (auto simp: sleepable_def)
  let ?w1 = "warning (retrying_msg name e) (w\<lparr>invocations := invocations w + 1\<rparr>)"
  have "sleepable b m (sleep_max ?w1) r" using assms(3) by (simp add: warning_def)
  then have "sleep d ?w1 = Inr (?w1\<lparr>sleeps := sleeps ?w1 @ [slept b m r]\<rparr>)"
    using d by (rule sleep_sleepable)
  with assms(1) e d show ?thesis
    by (simp add: retry_loop.simps [of name func mr b m r w] invoke_def warning_def)
qed

lemma retry_loop_delay_error:
  assumes "int r < mr" "fails func (invocations w)" "delay b m r = Inl e'"
  shows "retry_loop name func mr b m r w =
    (Inl e',
     w\<lparr>invocations := invocations w + 1,
       warnings := warnings w @ [retrying_msg name (projl (func (invocations w)))]\<rparr>)"
proof -
  from assms(2) obtain e where e: "func (invocations w) = Inl e" "is_Exception e"
    by (auto simp: fails_def split: sum.splits)
  with assms(1,3) show ?thesis
    by (simp add: retry_loop.simps [of name func mr b m r w] invoke_def warning_def)
qed

subsection \<open>Several failed attempts in a row\<close>

lemma after_failures_0: "after_failures name func b m 0 w = w"
  by (simp add: after_failures_def)

lemma retry_loop_failures:
  "int k \<le> mr \<Longrightarrow> \<forall>i<k. fails func (invocations w + i) \<Longrightarrow>
   \<forall>i<k. sleepable b m (sleep_max w) i \<Longrightarrow>
   retry_loop name func mr b m 0 w =
   retry_loop name func mr b m k (after_failures name func b m k w)"
proof (induction k)
  case 0
  show ?case by (simp add: after_failures_def)
next
  case (Suc k)
  let ?w = "after_failures name func b m k w"
  have inv: "invocations ?w = invocations w + k" "sleep_max ?w = sleep_max w"
    by (simp_all add: after_failures_def)
  have "retry_loop name func mr b m 0 w = retry_loop name func mr b m k ?w"
    using Suc by simp
  also have "\<dots> = retry_loop name func mr b m (k + 1)
     (?w\<lparr>invocations := invocations ?w + 1,
        warnings := warnings ?w @ [retrying_msg name (projl (func (invocations ?w)))],
        sleeps := sleeps ?w @ [slept b m k]\<rparr>)"
    using Suc.prems by (intro retry_loop_fail) (simp_all add: inv)
  also have "(?w\<lparr>invocations := invocations ?w + 1,
        warnings := warnings ?w @ [retrying_msg name (projl (func (invocations ?w)))],
        sleeps := sleeps ?w @ [slept b m k]\<rparr>) = after_failures name func b m (Suc k) w"
    by (simp add: after_failures_def)
  finally show ?case by simp
qed

lemma retry_loop_exhausted:
  assumes "\<forall>i<nat mr. fails func (invocations w + i)"
    and "\<forall>i<nat mr. sleepable b m (sleep_max w) i"
  shows "retry_loop name func mr b m 0 w =
    (Inl (Exception (failed_msg name mr)), after_failures name func b m (nat mr) w)"
proof (cases "0 \<le> mr")
  case True
  then have "retry_loop name func mr b m 0 w =
      retry_loop name func mr b m (nat mr) (after_failures name func b m (nat mr) w)"
    using assms by (intro retry_loop_failures) simp_all
  also have "\<dots> =
      (Inl (Exception (failed_msg name mr)), after_failures name func b m (nat mr) w)"
    using True by (intro retry_loop_exit) simp
  finally show ?thesis .
next
  case False
  then show ?thesis by (simp add: retry_loop_exit after_failures_0)
qed

lemma retry_loop_float_overflow:
  assumes "1024 < mr" "\<forall>i\<le>1024. fails func (invocations w + i)"
    and "\<forall>i<1024. sleepable (PyFloat x) m (sleep_max w) i"
  shows "retry_loop name func mr (PyFloat x) m 0 w =
    (Inl (OverflowError ''int too large to convert to float''),
     (after_failures name func (PyFloat x) m 1024 w)
       \<lparr>invocations := invocations w + 1025,
        warnings := warnings w @
          map (\<lambda>i. retrying_msg name (projl (func (invocations w + i)))) [0..<1025]\<rparr>)"
proof -
  let ?w = "after_failures name func (PyFloat x) m 1024 w"
  have "retry_loop name func mr (PyFloat x) m 0 w =
      retry_loop name func mr (PyFloat x) m 1024 ?w"
    using assms by (intro retry_loop_failures) simp_all
  also have "\<dots> = (Inl (OverflowError ''int too large to convert to float''),
      ?w\<lparr>invocations := invocations ?w + 1,
        warnings := warnings ?w @ [retrying_msg name (projl (func (invocations ?w)))]\<rparr>)"
    using assms(1,2)
    by (intro retry_loop_delay_error) (simp_all add: after_failures_def delay_overflow)
  also have "?w\<lparr>invocations := invocations ?w + 1,
        warnings := warnings ?w @ [retrying_msg name (projl (func (invocations ?w)))]\<rparr> =
      ?w\<lparr>invocations := invocations w + 1025,
        warnings := warnings w @
          map (\<lambda>i. retrying_msg name (projl (func (invocations w + i)))) [0..<1025]\<rparr>"
  proof -
    have "[0..<1025] = [0..<1024] @ [1024::nat]"
      using upt_Suc_append [of 0 1024] by simp
    then show ?thesis by (simp add: after_failures_def)
  qed
  finally show ?thesis .
qed


lemma retry_loop_sleeps_prefix:
  "prefix (sleeps w) (sleeps (snd (retry_loop name func mr b m r w)))"
proof (induction name func mr b m r w rule: retry_loop.induct)
  case (1 name func mr b m r w)
  show ?case
  proof (cases "int r < mr \<and> fails func (invocations w) \<and> sleepable b m (sleep_max w) r")
    case True
    let ?w1 = "warning (retrying_msg name (projl (func (invocations w))))
        (w\<lparr>invocations := invocations w + 1\<rparr>)"
    let ?w2 = "w\<lparr>invocations := invocations w + 1,
        warnings := warnings w @ [retrying_msg name (projl (func (invocations w)))],
        sleeps := sleeps w @ [slept b m r]\<rparr>"
    from True obtain e where e: "func (invocations w) = Inl e" "is_Exception e"
      by (auto simp: fails_def split: sum.splits)
    from True obtain d where d: "delay b m r = Inr d"
      using delay_defined [of b r m] by (auto simp: sleepable_def)
    have "sleepable b m (sleep_max ?w1) r" using True by (simp add: warning_def)
    then have "sleep d ?w1 = Inr (?w1\<lparr>sleeps := sleeps ?w1 @ [slept b m r]\<rparr>)"
      using d by (rule sleep_sleepable)
    moreover have "?w1\<lparr>sleeps := sleeps ?w1 @ [slept b m r]\<rparr> = ?w2"
      by (simp add: warning_def)
    ultimately have "sleep d (warning (retrying_msg name e)
        (w\<lparr>invocations := invocations w + 1\<rparr>)) = Inr ?w2"
      using e by simp
    with True e d
    have "prefix (sleeps ?w2) (sleeps (snd (retry_loop name func mr b m (r + 1) ?w2)))"
      by (intro "1.IH" [of "Inl e" "w\<lparr>invocations := invocations w + 1\<rparr>" e d])
        (simp_all add: invoke_def)
    moreover have "prefix (sleeps w) (sleeps ?w2)" by simp
    ultimately show ?thesis
      using True by (simp add: retry_loop_fail) (metis append_prefixD)
  next
    case False
    show ?thesis
    proof (cases "int r < mr \<and> fails func (invocations w)")
      case True
      with False have ns: "\<not> sleepable b m (sleep_max w) r" by simp
      from True obtain e where e: "func (invocations w) = Inl e" "is_Exception e"
        by (auto simp: fails_def split: sum.splits)
      let ?w1 = "warning (retrying_msg name e) (w\<lparr>invocations := invocations w + 1\<rparr>)"
      show ?thesis
      proof (cases "delay b m r")
        case (Inl e')
        with True show ?thesis by (simp add: retry_loop_delay_error)
      next
        case (Inr d)
        have "\<not> sleepable b m (sleep_max ?w1) r" using ns by (simp add: warning_def)
        then obtain e' where "sleep d ?w1 = Inl e'"
          using Inr by (rule sleep_not_sleepable)
        with True e Inr show ?thesis
          by (simp add: retry_loop.simps [of name func mr b m r w] invoke_def warning_def)
      qed
    next
      case False
      then show ?thesis
        by (auto simp: retry_loop.simps [of name func mr b m r w] invoke_def fails_def
            split: sum.splits)
    qed
  qed
qed

subsection \<open>What holds while the delays can be computed and slept\<close>

text \<open>
  When the attempts with the counter values \<open>0, \<dots>, n\<close> fail, where
  \<open>n < max_retries\<close>, and their delays can be computed and slept, the sleep number \<open>n\<close>
  of this call of the wrapper is \<open>min(base_delay * 2^n, max_delay)\<close> seconds long.
\<close>

lemma delay_slept_after_failed_attempt:
  assumes "int n < max_retries"
    and "\<forall>i\<le>n. fails func (invocations w + i)"
    and "\<forall>i\<le>n. sleepable base_delay max_delay (sleep_max w) i"
  shows "length (sleeps w) + n <
           length (sleeps (snd (wrapper name func max_retries base_delay max_delay w))) \<and>
         sleeps (snd (wrapper name func max_retries base_delay max_delay w)) !
           (length (sleeps w) + n) =
           min (num_val base_delay * 2 ^ n) (num_val max_delay)"
proof -
  let ?w = "after_failures name func base_delay max_delay (Suc n) w"
  have "wrapper name func max_retries base_delay max_delay w =
      retry_loop name func max_retries base_delay max_delay (Suc n) ?w"
    unfolding wrapper_def using assms
    by (intro retry_loop_failures) (simp_all add: less_Suc_eq_le)
  moreover have "prefix (sleeps ?w)
      (sleeps (snd (retry_loop name func max_retries base_delay max_delay (Suc n) ?w)))"
    by (rule retry_loop_sleeps_prefix)
  ultimately obtain zs where
    "sleeps (snd (wrapper name func max_retries base_delay max_delay w)) = sleeps ?w @ zs"
    by (auto simp: prefix_def)
  moreover have "sleeps ?w = (sleeps w @ map (slept base_delay max_delay) [0..<n]) @
      [min (num_val base_delay * 2 ^ n) (num_val max_delay)]"
    by (simp add: after_failures_def slept_def)
  ultimately show ?thesis by (simp add: nth_append)
qed

text \<open>
  When the operation fails \<open>k\<close> times and then returns \<open>v\<close>, with \<open>k < max_retries\<close>,
  and the \<open>k\<close> delays can be computed and slept, the wrapper returns \<open>v\<close> right after
  that call, having slept exactly these \<open>k\<close> delays, in order.
\<close>

lemma wrapper_fails_k_then_succeeds:
  assumes "int k < max_retries"
    and "\<forall>i<k. fails func (invocations w + i)"
    and "func (invocations w + k) = Inr v"
    and "\<forall>i<k. sleepable base_delay max_delay (sleep_max w) i"
  shows "wrapper name func max_retries base_delay max_delay w =
    (Inr v,
     w\<lparr>invocations := invocations w + k + 1,
       warnings := warnings w @
         map (\<lambda>i. retrying_msg name (projl (func (invocations w + i)))) [0..<k],
       sleeps := sleeps w @
         map (\<lambda>i. min (num_val base_delay * 2 ^ i) (num_val max_delay)) [0..<k]\<rparr>)"
proof -
  let ?w = "after_failures name func base_delay max_delay k w"
  have "wrapper name func max_retries base_delay max_delay w =
      retry_loop name func max_retries base_delay max_delay k ?w"
    unfolding wrapper_def using assms by (intro retry_loop_failures) simp_all
  also have "\<dots> = (Inr v, ?w\<lparr>invocations := invocations ?w + 1\<rparr>)"
    using assms by (intro retry_loop_return) (simp_all add: after_failures_def)
  finally show ?thesis by (simp add: after_failures_def slept_def)
qed

lemma flaky_scenario:
  "wrapper ''poll'' flaky 5 (PyFloat 1) (PyFloat 10) world0 =
     (Inr 4, world0\<lparr>invocations := 5,
        warnings := replicate 4 ''Retrying poll due to error: timeout'',
        sleeps := [1, 2, 4, 8]\<rparr>)"
proof -
  have "\<forall>i<4. fails flaky (invocations world0 + i)"
    by (simp add: fails_def flaky_def world0_def)
  moreover have "flaky (invocations world0 + 4) = Inr 4"
    by (simp add: flaky_def world0_def)
  moreover have "\<forall>i<4. sleepable (PyFloat 1) (PyFloat 10) (sleep_max world0) i"
    by (intro allI impI sleepable_bounded) (simp_all add: in_time_range_def world0_def)
  ultimately show ?thesis
    using wrapper_fails_k_then_succeeds [of 4 5 flaky world0 4 "PyFloat 1" "PyFloat 10" "''poll''"]
    by (simp add: world0_def flaky_def retrying_msg_def upt_rec numeral_eq_Suc)
qed

subsection \<open>An operation that always fails\<close>

text \<open>
  Claim C1 asks for three attempts, two sleeps and the terminal failure when
  \<open>max_retries = 3\<close> and the operation always fails. The example of the module is such
  a call, and the wrapper sleeps three times in it: after the third failure it logs
  that it is retrying, sleeps 8 seconds and then raises without another attempt.
\<close>

theorem fetch_data_sleeps_after_last_attempt:
  "wrapper ''fetch_data'' fetch_data 3 (PyInt 2) (PyInt 10) world0 =
    (Inl (Exception ''Function fetch_data failed after 3 retries.''),
     world0\<lparr>invocations := 3,
       warnings := replicate 3 ''Retrying fetch_data due to error: Simulated network error'',
       sleeps := [2, 4, 8]\<rparr>)"
proof -
  have "\<forall>i<nat 3. fails fetch_data (invocations world0 + i)"
    by (simp add: fails_def fetch_data_def)
  moreover have "\<forall>i<nat 3. sleepable (PyInt 2) (PyInt 10) (sleep_max world0) i"
    by (intro allI impI sleepable_bounded) (simp_all add: in_time_range_def world0_def)
  ultimately have "wrapper ''fetch_data'' fetch_data 3 (PyInt 2) (PyInt 10) world0 =
      (Inl (Exception (failed_msg ''fetch_data'' 3)),
       after_failures ''fetch_data'' fetch_data (PyInt 2) (PyInt 10) (nat 3) world0)"
    unfolding wrapper_def by (rule retry_loop_exhausted)
  moreover have "[0..<nat 3] = [0, 1, 2]"
    by (simp add: upt_rec numeral_eq_Suc)
  moreover have "str_int 3 = ''3''"
    by (simp add: str_int_def str_nat.simps)
  ultimately show ?thesis
    by (simp add: after_failures_def failed_msg_def slept_def world0_def fetch_data_def
        retrying_msg_def numeral_eq_Suc)
qed

subsection \<open>No retries allowed\<close>

text \<open>
  Claim C2 asks for exactly one invocation when \<open>max_retries = 0\<close>. The wrapper does not
  call the operation then: for an operation that would return 7 it raises the terminal
  failure at once and leaves the world as it was.
\<close>

theorem always_7_never_invoked:
  "wrapper ''f'' always_7 0 (PyFloat 1) (PyFloat 60) world0 =
     (Inl (Exception ''Function f failed after 0 retries.''), world0)"
proof -
  have "str_int 0 = ''0''"
    by (simp add: str_int_def str_nat.simps)
  then show ?thesis
    by (simp add: wrapper_def retry_loop_exit failed_msg_def)
qed

subsection \<open>The delay of a late attempt\<close>

text \<open>
  Claim C3 asks for a sleep of \<open>min(base_delay * 2^attempt, max_delay)\<close> seconds after
  every failed attempt with a counter below \<open>max_retries\<close>. With a float \<open>base_delay\<close>
  the product cannot be computed from the counter value 1024 on: for an operation that
  always fails, \<open>max_retries = 1030\<close>, \<open>base_delay = 1.0\<close> and \<open>max_delay = 60.0\<close>, the
  wrapper sleeps after the attempts 0 to 1023 and leaves with \<open>OverflowError\<close> after
  the attempt 1024, where the delay asked for is 60 seconds.
\<close>

theorem fetch_data_overflow_at_1024:
  "fst (wrapper ''fetch_data'' fetch_data 1030 (PyFloat 1) (PyFloat 60) world0) =
     Inl (OverflowError ''int too large to convert to float'') \<and>
   invocations (snd (wrapper ''fetch_data'' fetch_data 1030 (PyFloat 1) (PyFloat 60) world0)) =
     1025 \<and>
   length (sleeps (snd (wrapper ''fetch_data'' fetch_data 1030 (PyFloat 1) (PyFloat 60)
     world0))) = 1024"
proof -
  have "\<forall>i\<le>1024. fails fetch_data (invocations world0 + i)"
    by (simp add: fails_def fetch_data_def)
  moreover have "\<forall>i<1024. sleepable (PyFloat 1) (PyFloat 60) (sleep_max world0) i"
    by (intro allI impI sleepable_bounded) (simp_all add: in_time_range_def world0_def)
  ultimately have "wrapper ''fetch_data'' fetch_data 1030 (PyFloat 1) (PyFloat 60) world0 =
    (Inl (OverflowError ''int too large to convert to float''),
     (after_failures ''fetch_data'' fetch_data (PyFloat 1) (PyFloat 60) 1024 world0)
       \<lparr>invocations := invocations world0 + 1025,
        warnings := warnings world0 @
          map (\<lambda>i. retrying_msg ''fetch_data'' (projl (fetch_data (invocations world0 + i))))
            [0..<1025]\<rparr>)"
    unfolding wrapper_def by (intro retry_loop_float_overflow) simp_all
  then show ?thesis by (simp add: after_failures_def world0_def)
qed

subsection \<open>Success after many failures\<close>

text \<open>
  Claim C4 asks that the wrapper returns the value of the operation after \<open>k\<close> failures
  and \<open>k\<close> sleeps, for every \<open>k < max_retries\<close>. For an operation that fails 1500 times
  and then succeeds, with \<open>max_retries = 2000\<close>, \<open>base_delay = 1.0\<close> and
  \<open>max_delay = 60.0\<close>, the wrapper does not return the value: it leaves with
  \<open>OverflowError\<close> after the attempt 1024, having slept 1024 times.
\<close>

theorem flaky_1500_overflow_at_1024:
  "fst (wrapper ''poll'' flaky_1500 2000 (PyFloat 1) (PyFloat 60) world0) =
     Inl (OverflowError ''int too large to convert to float'') \<and>
   invocations (snd (wrapper ''poll'' flaky_1500 2000 (PyFloat 1) (PyFloat 60) world0)) =
     1025 \<and>
   length (sleeps (snd (wrapper ''poll'' flaky_1500 2000 (PyFloat 1) (PyFloat 60) world0))) =
     1024"
proof -
  have "\<forall>i\<le>1024. fails flaky_1500 (invocations world0 + i)"
    by (simp add: fails_def flaky_1500_def world0_def)
  moreover have "\<forall>i<1024. sleepable (PyFloat 1) (PyFloat 60) (sleep_max world0) i"
    by (intro allI impI sleepable_bounded) (simp_all add: in_time_range_def world0_def)
  ultimately have "wrapper ''poll'' flaky_1500 2000 (PyFloat 1) (PyFloat 60) world0 =
    (Inl (OverflowError ''int too large to convert to float''),
     (after_failures ''poll'' flaky_1500 (PyFloat 1) (PyFloat 60) 1024 world0)
       \<lparr>invocations := invocations world0 + 1025,
        warnings := warnings world0 @
          map (\<lambda>i. retrying_msg ''poll'' (projl (flaky_1500 (invocations world0 + i))))
            [0..<1025]\<rparr>)"
    unfolding wrapper_def by (intro retry_loop_float_overflow) simp_all
  then show ?thesis by (simp add: after_failures_def world0_def)
qed

subsection \<open>The terminal failure\<close>

text \<open>
  Claim C5, as the code has it. When every attempt that the budget allows fails, and
  the delay after each of them can be computed and slept, the wrapper raises an
  \<open>Exception\<close> whose message is made of the name of the operation and of
  \<open>max_retries\<close> and of nothing else: it names the operation and the retry count, and
  no part of it comes from the failures of the operation.
\<close>

theorem wrapper_exhausted_terminal_failure:
  assumes "\<forall>i<nat max_retries. fails func (invocations w + i)"
    and "\<forall>i<nat max_retries. sleepable base_delay max_delay (sleep_max w) i"
  shows "fst (wrapper name func max_retries base_delay max_delay w) =
    Inl (Exception
      (''Function '' @ name @ '' failed after '' @ str_int max_retries @ '' retries.''))"
  unfolding wrapper_def using assms
  by (simp add: retry_loop_exhausted failed_msg_def)

theorem wrapper_exhausted_terminal_failure_witness:
  "fst (wrapper ''fetch_data'' disk_full 3 (PyInt 2) (PyInt 10) world0) =
     Inl (Exception ''Function fetch_data failed after 3 retries.'')"
proof -
  have "\<forall>i<nat 3. fails disk_full (invocations world0 + i)"
    by (simp add: fails_def disk_full_def)
  moreover have "\<forall>i<nat 3. sleepable (PyInt 2) (PyInt 10) (sleep_max world0) i"
    by (intro allI impI sleepable_bounded) (simp_all add: in_time_range_def world0_def)
  ultimately show ?thesis
    using wrapper_exhausted_terminal_failure
      [of 3 disk_full world0 "PyInt 2" "PyInt 10" "''fetch_data''"]
    by (simp add: str_int_def str_nat.simps)
qed

text \<open>
  Claim C5 as it is written says that the terminal failure wraps or describes the last
  failure of the operation. The exception carries a message only (it is raised after the
  handler has ended, without \<open>from\<close>, so no cause is attached to it), and for
  \<open>fetch_data\<close> this message does not hold the text of the error that \<open>fetch_data\<close>
  raises; an operation that fails with another error gets the very same failure.
\<close>

theorem wrapper_terminal_failure_describes_cause_counterexample:
  "fst (wrapper ''fetch_data'' fetch_data 3 (PyInt 2) (PyInt 10) world0) =
     Inl (Exception ''Function fetch_data failed after 3 retries.'') \<and>
   \<not> sublist ''Simulated network error'' ''Function fetch_data failed after 3 retries.'' \<and>
   fst (wrapper ''fetch_data'' disk_full 3 (PyInt 2) (PyInt 10) world0) =
     fst (wrapper ''fetch_data'' fetch_data 3 (PyInt 2) (PyInt 10) world0)"
proof -
  have s: "\<forall>i<nat 3. sleepable (PyInt 2) (PyInt 10) (sleep_max world0) i"
    by (intro allI impI sleepable_bounded) (simp_all add: in_time_range_def world0_def)
  have "\<forall>i<nat 3. fails fetch_data (invocations world0 + i)"
    by (simp add: fails_def fetch_data_def)
  then have a: "wrapper ''fetch_data'' fetch_data 3 (PyInt 2) (PyInt 10) world0 =
      (Inl (Exception (failed_msg ''fetch_data'' 3)),
       after_failures ''fetch_data'' fetch_data (PyInt 2) (PyInt 10) (nat 3) world0)"
    unfolding wrapper_def using s by (rule retry_loop_exhausted)
  have "\<forall>i<nat 3. fails disk_full (invocations world0 + i)"
    by (simp add: fails_def disk_full_def)
  then have b: "wrapper ''fetch_data'' disk_full 3 (PyInt 2) (PyInt 10) world0 =
      (Inl (Exception (failed_msg ''fetch_data'' 3)),
       after_failures ''fetch_data'' disk_full (PyInt 2) (PyInt 10) (nat 3) world0)"
    unfolding wrapper_def using s by (rule retry_loop_exhausted)
  have c: "failed_msg ''fetch_data'' 3 = ''Function fetch_data failed after 3 retries.''"
    by (simp add: failed_msg_def str_int_def str_nat.simps)
  have d: "\<not> sublist ''Simulated network error''
      ''Function fetch_data failed after 3 retries.''"
    by (simp add: sublist_Cons_right)
  show ?thesis by (simp only: a b c d fst_conv) simp
qed

subsection \<open>A budget of zero or less\<close>

text \<open>
  Claim C8. When \<open>max_retries\<close> is zero or negative, the body of the loop does not run:
  the wrapper raises the terminal failure and leaves the world as it was, so the
  operation has not been invoked and nothing has been slept.
\<close>

theorem wrapper_nonpositive_max_retries:
  "max_retries \<le> 0 \<Longrightarrow>
   wrapper name func max_retries base_delay max_delay w =
     (Inl (Exception
        (''Function '' @ name @ '' failed after '' @ str_int max_retries @ '' retries.'')), w)"
  by (simp add: wrapper_def retry_loop_exit failed_msg_def)

theorem wrapper_nonpositive_max_retries_witness:
  "wrapper ''fetch_data'' fetch_data (- 2) (PyInt 2) (PyInt 10) world0 =
     (Inl (Exception ''Function fetch_data failed after -2 retries.''), world0)"
  using wrapper_nonpositive_max_retries
    [of "- 2" "''fetch_data''" fetch_data "PyInt 2" "PyInt 10" world0]
  by (simp add: str_int_def str_nat.simps)

section \<open>Properties of the configuration\<close>

subsection \<open>Reading the environment\<close>

lemma split_acc_nonempty: "split_acc sep acc s \<noteq> []"
  by (induction s arbitrary: acc) auto

lemma py_int_minus_1: "py_int ''-1'' = Some (- 1)"
  by (simp add: py_int_def strip_def is_space_def parse_unsigned_def is_digit_def digit_val_def)

lemma py_int_0: "py_int ''0'' = Some 0"
  by (simp add: py_int_def strip_def is_space_def parse_unsigned_def is_digit_def digit_val_def)

lemma default_symbols:
  "str_split ''AAPL,GOOGL,MSFT,AMZN,TSLA'' CHR '','' = [''AAPL'', ''GOOGL'', ''MSFT'', ''AMZN'', ''TSLA'']"
  by (simp add: str_split_def)

lemma load_defaults: "load Map.empty = Inr default_config"
  by (simp add: load_def getenv_def int_getenv_def default_symbols default_config_def)

lemma load_retry_count_minus_1:
  "load [''RETRY_COUNT'' \<mapsto> ''-1''] = Inr (default_config\<lparr>RETRY_COUNT := - 1\<rparr>)"
  by (simp add: load_def getenv_def int_getenv_def default_symbols default_config_def
      py_int_minus_1)

lemma load_poll_interval_0:
  "load [''POLL_INTERVAL'' \<mapsto> ''0''] = Inr (default_config\<lparr>POLL_INTERVAL := 0\<rparr>)"
  by (simp add: load_def getenv_def int_getenv_def default_symbols default_config_def
      py_int_0)

lemma validate_fails_iff_offending:
  "(validate c \<noteq> Inr ()) =
     (ALPHA_VANTAGE_API_KEY c = [] \<or> STOCK_SYMBOLS c = [] \<or> SERVER_URL c = [] \<or>
      RETRY_COUNT c < 0 \<or> RETRY_DELAY c < 0 \<or> POLL_INTERVAL c \<le> 0)"
  by (simp add: validate_def)

lemma validate_names_offending:
  assumes "validate c = Inl e"
  shows "\<exists>setting rest. offending c setting \<and> e = ValidationError (setting @ rest)"
proof -
  have named: "offending c setting \<Longrightarrow> e = ValidationError (setting @ rest) \<Longrightarrow> ?thesis"
    for setting rest by blast
  consider (api_key) "ALPHA_VANTAGE_API_KEY c = []"
    | (symbols) "ALPHA_VANTAGE_API_KEY c \<noteq> []" "STOCK_SYMBOLS c = []"
    | (server_url) "ALPHA_VANTAGE_API_KEY c \<noteq> []" "STOCK_SYMBOLS c \<noteq> []" "SERVER_URL c = []"
    | (retry_count) "ALPHA_VANTAGE_API_KEY c \<noteq> []" "STOCK_SYMBOLS c \<noteq> []"
        "SERVER_URL c \<noteq> []" "RETRY_COUNT c < 0"
    | (retry_delay) "ALPHA_VANTAGE_API_KEY c \<noteq> []" "STOCK_SYMBOLS c \<noteq> []"
        "SERVER_URL c \<noteq> []" "\<not> RETRY_COUNT c < 0" "RETRY_DELAY c < 0"
    | (poll_interval) "ALPHA_VANTAGE_API_KEY c \<noteq> []" "STOCK_SYMBOLS c \<noteq> []"
        "SERVER_URL c \<noteq> []" "\<not> RETRY_COUNT c < 0" "\<not> RETRY_DELAY c < 0"
        "POLL_INTERVAL c \<le> 0"
  proof -
    from assms have "validate c \<noteq> Inr ()" by simp
    then have "ALPHA_VANTAGE_API_KEY c = [] \<or> STOCK_SYMBOLS c = [] \<or> SERVER_URL c = [] \<or>
        RETRY_COUNT c < 0 \<or> RETRY_DELAY c < 0 \<or> POLL_INTERVAL c \<le> 0"
      by (simp only: validate_fails_iff_offending)
    then show ?thesis by (elim disjE) (blast intro: that)+
  qed
  then show ?thesis
  proof cases
    case api_key
    with assms show ?thesis
      by (intro named [of "''ALPHA_VANTAGE_API_KEY''"
            "'' is not set in the environment variables.''"])
        (simp_all add: offending_def validate_def)
  next
    case symbols
    with assms show ?thesis
      by (intro named [of "''STOCK_SYMBOLS''" "'' is not set in the environment variables.''"])
        (simp_all add: offending_def validate_def)
  next
    case server_url
    with assms show ?thesis
      by (intro named [of "''SERVER_URL''" "'' is not set in the environment variables.''"])
        (simp_all add: offending_def validate_def)
  next
    case retry_count
    with assms show ?thesis
      by (intro named [of "''RETRY_COUNT''" "'' must be a non-negative integer.''"])
        (simp_all add: offending_def validate_def)
  next
    case retry_delay
    with assms show ?thesis
      by (intro named [of "''RETRY_DELAY''" "'' must be a non-negative integer.''"])
        (simp_all add: offending_def validate_def)
  next
    case poll_interval
    with assms show ?thesis
      by (intro named [of "''POLL_INTERVAL''" "'' must be a positive integer.''"])
        (simp_all add: offending_def validate_def)
  qed
qed

subsection \<open>Validation\<close>

text \<open>
  Claim C6. \<open>validate\<close> fails exactly when the API key is empty, the list of symbols is
  empty, the server URL is empty, the retry count is negative, the retry delay is
  negative or the poll interval is not positive; the message of the error begins with
  the name of a setting that is at fault. With \<open>RETRY_COUNT=-1\<close> in the environment
  validation fails, with \<open>POLL_INTERVAL=0\<close> it fails, and with no variable set it
  succeeds on the defaults.
\<close>

theorem validate_rejects_exactly_offending_settings:
  "(validate c \<noteq> Inr ()) =
     (ALPHA_VANTAGE_API_KEY c = [] \<or> STOCK_SYMBOLS c = [] \<or> SERVER_URL c = [] \<or>
      RETRY_COUNT c < 0 \<or> RETRY_DELAY c < 0 \<or> POLL_INTERVAL c \<le> 0) \<and>
   (\<forall>e. validate c = Inl e \<longrightarrow>
      (\<exists>setting rest. offending c setting \<and> e = ValidationError (setting @ rest))) \<and>
   import_and_validate [''RETRY_COUNT'' \<mapsto> ''-1''] =
     Inl (ValidationError ''RETRY_COUNT must be a non-negative integer.'') \<and>
   import_and_validate [''POLL_INTERVAL'' \<mapsto> ''0''] =
     Inl (ValidationError ''POLL_INTERVAL must be a positive integer.'') \<and>
   import_and_validate Map.empty = Inr default_config"
proof (intro conjI allI impI)
  show "(validate c \<noteq> Inr ()) =
     (ALPHA_VANTAGE_API_KEY c = [] \<or> STOCK_SYMBOLS c = [] \<or> SERVER_URL c = [] \<or>
      RETRY_COUNT c < 0 \<or> RETRY_DELAY c < 0 \<or> POLL_INTERVAL c \<le> 0)"
    by (rule validate_fails_iff_offending)
next
  fix e assume "validate c = Inl e"
  then show "\<exists>setting rest. offending c setting \<and> e = ValidationError (setting @ rest)"
    by (rule validate_names_offending)
next
  show "import_and_validate [''RETRY_COUNT'' \<mapsto> ''-1''] =
     Inl (ValidationError ''RETRY_COUNT must be a non-negative integer.'')"
    by (simp add: import_and_validate_def load_retry_count_minus_1 validate_def
        default_config_def)
next
  show "import_and_validate [''POLL_INTERVAL'' \<mapsto> ''0''] =
     Inl (ValidationError ''POLL_INTERVAL must be a positive integer.'')"
    by (simp add: import_and_validate_def load_poll_interval_0 validate_def
        default_config_def)
next
  show "import_and_validate Map.empty = Inr default_config"
    by (simp add: import_and_validate_def load_defaults validate_def default_config_def)
qed

theorem validate_rejects_exactly_offending_settings_witness:
  "validate (default_config\<lparr>RETRY_DELAY := - 7\<rparr>) =
     Inl (ValidationError ''RETRY_DELAY must be a non-negative integer.'') \<and>
   offending (default_config\<lparr>RETRY_DELAY := - 7\<rparr>) ''RETRY_DELAY'' \<and>
   validate (default_config\<lparr>RETRY_DELAY := - 7\<rparr>) \<noteq> Inr () \<and>
   RETRY_DELAY (default_config\<lparr>RETRY_DELAY := - 7\<rparr>) < 0"
proof -
  have "validate (default_config\<lparr>RETRY_DELAY := - 7\<rparr>) =
      Inl (ValidationError ''RETRY_DELAY must be a non-negative integer.'')"
    by (simp add: validate_def default_config_def)
  moreover have "offending (default_config\<lparr>RETRY_DELAY := - 7\<rparr>) ''RETRY_DELAY''"
    by (simp add: offending_def)
  moreover have "validate (default_config\<lparr>RETRY_DELAY := - 7\<rparr>) \<noteq> Inr () \<and>
      RETRY_DELAY (default_config\<lparr>RETRY_DELAY := - 7\<rparr>) < 0"
    using validate_rejects_exactly_offending_settings
      [THEN conjunct1, of "default_config\<lparr>RETRY_DELAY := - 7\<rparr>"]
    by simp
  ultimately show ?thesis by (intro conjI) simp_all
qed

subsection \<open>Settings that are not integers\<close>

text \<open>
  Claim C9. When one of \<open>RETRY_COUNT\<close>, \<open>RETRY_DELAY\<close> and \<open>POLL_INTERVAL\<close> is set
  to a string that \<open>int\<close> does not accept, loading the configuration fails with the
  \<open>ValueError\<close> of \<open>int\<close> for such a string; so importing and validating ends with this
  error and not with one of the errors of \<open>validate\<close>.
\<close>

theorem load_rejects_invalid_integer:
  assumes "k = ''RETRY_COUNT'' \<or> k = ''RETRY_DELAY'' \<or> k = ''POLL_INTERVAL''"
    and "env k = Some s" and "py_int s = None"
  shows "\<exists>k' t. env k' = Some t \<and> py_int t = None \<and>
           load env = Inl (InvalidLiteral t) \<and>
           import_and_validate env = Inl (InvalidLiteral t)"
  using assms unfolding import_and_validate_def load_def int_getenv_def
  by (auto simp: Let_def split: option.splits)


theorem load_rejects_invalid_integer_witness:
  "load [''RETRY_DELAY'' \<mapsto> ''five''] = Inl (InvalidLiteral ''five'') \<and>
   import_and_validate [''RETRY_DELAY'' \<mapsto> ''five''] = Inl (InvalidLiteral ''five'')"
proof -
  have "py_int ''five'' = None"
    by (simp add: py_int_def strip_def is_space_def parse_unsigned_def is_digit_def)
  then obtain k' t where kt: "[''RETRY_DELAY'' \<mapsto> ''five''] k' = Some t"
      "load [''RETRY_DELAY'' \<mapsto> ''five''] = Inl (InvalidLiteral t)"
      "import_and_validate [''RETRY_DELAY'' \<mapsto> ''five''] = Inl (InvalidLiteral t)"
    using load_rejects_invalid_integer
      [of "''RETRY_DELAY''" "[''RETRY_DELAY'' \<mapsto> ''five'']" "''five''"]
    by auto
  from kt(1) have "t = ''five''"
    by (cases "k' = ''RETRY_DELAY''") simp_all
  with kt(2,3) show ?thesis by simp
qed

subsection \<open>The list of symbols\<close>

text \<open>
  Claim C10. Splitting any string at the commas gives at least one piece, and the empty
  string gives the one empty piece. So whatever the environment holds, a loaded
  configuration has a list of symbols that is not empty, and \<open>validate\<close> never fails
  with the error for \<open>STOCK_SYMBOLS\<close>.
\<close>

theorem stock_symbols_never_empty:
  "str_split s CHR '','' \<noteq> [] \<and> str_split [] CHR '','' = [[]] \<and>
   (\<forall>c. load env = Inr c \<longrightarrow>
      STOCK_SYMBOLS c \<noteq> [] \<and>
      validate c \<noteq>
        Inl (ValidationError ''STOCK_SYMBOLS is not set in the environment variables.''))"
proof (intro conjI allI impI)
  show "str_split s CHR '','' \<noteq> []"
    by (simp add: str_split_def split_acc_nonempty)
  show "str_split [] CHR '','' = [[]]"
    by (simp add: str_split_def)
next
  fix c assume "load env = Inr c"
  then have "STOCK_SYMBOLS c =
      str_split (getenv env ''STOCK_SYMBOLS'' ''AAPL,GOOGL,MSFT,AMZN,TSLA'') CHR '',''"
    by (auto simp: load_def Let_def split: sum.splits)
  then show "STOCK_SYMBOLS c \<noteq> []"
    by (simp add: str_split_def split_acc_nonempty)
  then show "validate c \<noteq>
      Inl (ValidationError ''STOCK_SYMBOLS is not set in the environment variables.'')"
    by (simp add: validate_def)
qed


theorem stock_symbols_never_empty_witness:
  "load [''STOCK_SYMBOLS'' \<mapsto> ''''] = Inr (default_config\<lparr>STOCK_SYMBOLS := ['''']\<rparr>) \<and>
   STOCK_SYMBOLS (default_config\<lparr>STOCK_SYMBOLS := ['''']\<rparr>) \<noteq> [] \<and>
   validate (default_config\<lparr>STOCK_SYMBOLS := ['''']\<rparr>) = Inr ()"
proof -
  have l: "load [''STOCK_SYMBOLS'' \<mapsto> ''''] = Inr (default_config\<lparr>STOCK_SYMBOLS := ['''']\<rparr>)"
    by (simp add: load_def getenv_def int_getenv_def str_split_def default_config_def)
  show ?thesis
    using stock_symbols_never_empty [of "''''" "[''STOCK_SYMBOLS'' \<mapsto> '''']"] l
    by (simp add: validate_def default_config_def)
qed


section \<open>Properties of the logger factory\<close>

subsection \<open>Reading and updating a logger\<close>

lemma logger_at_update_logger:
  "logger_at (update_logger c f st) c' =
     (if c' = c then map_option f (logger_at st c) else logger_at st c')"
  by (cases c; cases c')
    (auto simp: logger_at.simps update_logger.simps split: option.splits entry.splits)

lemma update_logger_other [simp]:
  "files (update_logger c f st) = files st"
  "console (update_logger c f st) = console st"
  "can_open (update_logger c f st) = can_open st"
  by (cases c; auto simp: update_logger.simps split: option.splits entry.splits)+

lemma fst_getLogger: "fst (getLogger name st) = logger_ref name"
  by (auto simp: getLogger_def logger_ref_def split: option.splits entry.splits)

lemma getLogger_existing:
  assumes "logger_at st (logger_ref name) = Some l"
  shows "getLogger name st = (logger_ref name, st)"
  using assms
  by (auto simp: getLogger_def logger_ref_def logger_at.simps
      split: option.splits entry.splits if_splits)

lemma hasHandlers_own:
  "logger_at st c = Some l \<Longrightarrow> lg_handlers l \<noteq> [] \<Longrightarrow> hasHandlers st c = Some True"
  by (subst hasHandlers.simps) simp

lemma setup_logger_existing:
  assumes "logger_at st (logger_ref name) = Some l" "lg_handlers l \<noteq> []"
    "check_level level = Some lv"
  shows "setup_logger name log_file level st =
    Some (Inr (logger_ref name), setLevel (logger_ref name) lv st)"
proof -
  have "logger_at (setLevel (logger_ref name) lv st) (logger_ref name) =
      Some (l\<lparr>lg_level := lv\<rparr>)"
    using assms(1) by (simp add: setLevel_def logger_at_update_logger)
  then have "hasHandlers (setLevel (logger_ref name) lv st) (logger_ref name) = Some True"
    by (rule hasHandlers_own) (simp add: assms(2))
  then show ?thesis
    using assms(1,3) by (simp add: setup_logger_def getLogger_existing)
qed

subsection \<open>The logger \<open>X\<close> in a fresh process\<close>

lemma dotted_prefixes_X: "dotted_prefixes ''X'' = []"
  by (simp add: dotted_prefixes.simps)

lemma getLogger_X_logging0:
  "getLogger ''X'' logging0 =
     (Named ''X'',
      logging0\<lparr>loggerDict := [''X'' \<mapsto> Logger (new_logger\<lparr>lg_parent := Some Root\<rparr>)]\<rparr>)"
  by (simp add: getLogger_def logging0_def fixupParents_def dotted_prefixes_X
      update_logger.simps)

lemma setup_logger_X_first:
  "setup_logger ''X'' ''app.log'' ''INFO'' logging0 = Some (Inr (Named ''X''), logging_X 20)"
proof -
  let ?st0 = "logging0\<lparr>loggerDict := [''X'' \<mapsto> Logger (new_logger\<lparr>lg_parent := Some Root\<rparr>)]\<rparr>"
  let ?st1 = "setLevel (Named ''X'') 20 ?st0"
  have "hasHandlers ?st1 Root = Some False"
    by (subst hasHandlers.simps)
      (simp add: setLevel_def logging0_def logger_at.simps update_logger.simps)
  then have "hasHandlers ?st1 (Named ''X'') = Some False"
    by (subst hasHandlers.simps)
      (simp add: setLevel_def new_logger_def logger_at.simps update_logger.simps)
  moreover have "check_level ''INFO'' = Some 20" by (simp add: check_level_def)
  moreover have "addHandler (Named ''X'') (console_handler 20)
      (addHandler (Named ''X'') (file_handler ''app.log'' 20) ?st1) = logging_X 20"
    by (simp add: addHandler_def setLevel_def logging_X_def new_logger_def logging0_def
        update_logger.simps)
  moreover have "can_open ?st1 ''app.log''"
    by (simp add: setLevel_def logging0_def)
  ultimately show ?thesis
    by (simp add: setup_logger_def getLogger_X_logging0)
qed

lemma logger_at_logging_X:
  "logger_at (logging_X l) (Named ''X'') =
     Some \<lparr>lg_level = l, lg_handlers = [file_handler ''app.log'' 20, console_handler 20],
       lg_propagate = True, lg_parent = Some Root\<rparr>"
  by (simp add: logging_X_def logger_at.simps)

lemma setLevel_logging_X: "setLevel (Named ''X'') l' (logging_X l) = logging_X l'"
  by (simp add: setLevel_def logging_X_def update_logger.simps)

lemma setup_logger_X_again:
  assumes "check_level level = Some l'"
  shows "setup_logger ''X'' ''app.log'' level (logging_X l) =
    Some (Inr (Named ''X''), logging_X l')"
proof -
  have r: "logger_ref ''X'' = Named ''X''" by (simp add: logger_ref_def)
  have a: "logger_at (logging_X l) (logger_ref ''X'') =
      Some \<lparr>lg_level = l, lg_handlers = [file_handler ''app.log'' 20, console_handler 20],
        lg_propagate = True, lg_parent = Some Root\<rparr>"
    unfolding r by (rule logger_at_logging_X)
  have "setup_logger ''X'' ''app.log'' level (logging_X l) =
      Some (Inr (logger_ref ''X''), setLevel (logger_ref ''X'') l' (logging_X l))"
    by (rule setup_logger_existing [OF a _ assms]) simp
  then show ?thesis by (simp add: r setLevel_logging_X)
qed

subsection \<open>The manager keeps the loggers well formed\<close>

lemma rfind_dot_less: "rfind_dot t = Some j \<Longrightarrow> j < length t"
  by (induction t arbitrary: j) (auto split: option.splits if_splits)

lemma dotted_prefixes_shorter: "p \<in> set (dotted_prefixes s) \<Longrightarrow> length p < length s"
proof (induction s arbitrary: p rule: dotted_prefixes.induct)
  case (1 s)
  show ?case
  proof (cases "rfind_dot s")
    case None
    with "1.prems" show ?thesis by (simp add: dotted_prefixes.simps [of s])
  next
    case (Some i)
    show ?thesis
    proof (cases "0 < i")
      case False
      with Some "1.prems" show ?thesis by (simp add: dotted_prefixes.simps [of s])
    next
      case True
      have i: "i < length s" using Some by (rule rfind_dot_less)
      from Some True "1.prems"
      have "p = take i s \<or> p \<in> set (dotted_prefixes (take (i - 1) s))"
        by (simp add: dotted_prefixes.simps [of s])
      then show ?thesis
      proof
        assume "p = take i s"
        with i show ?thesis by simp
      next
        assume "p \<in> set (dotted_prefixes (take (i - 1) s))"
        then have "length p < length (take (i - 1) s)"
          using Some True by (intro "1.IH") simp_all
        then show ?thesis by simp
      qed
    qed
  qed
qed

lemma fixup_parents_from_loggers:
  "fixup_parents_from a ss d = (p, d') \<Longrightarrow>
   (d' n = Some (Logger l)) = (d n = Some (Logger l))"
proof (induction ss arbitrary: d)
  case Nil
  then show ?case by simp
next
  case (Cons s ss)
  show ?case
  proof (cases "d s")
    case None
    with Cons.prems have "fixup_parents_from a ss (d(s \<mapsto> PlaceHolder [a])) = (p, d')"
      by simp
    from Cons.IH [OF this] None show ?thesis by (cases "n = s") simp_all
  next
    case (Some e)
    show ?thesis
    proof (cases e)
      case (Logger x)
      with Some Cons.prems show ?thesis by simp
    next
      case (PlaceHolder cs)
      with Some Cons.prems
      have "fixup_parents_from a ss
          (d(s \<mapsto> PlaceHolder (if a \<in> set cs then cs else cs @ [a]))) = (p, d')"
        by simp
      from Cons.IH [OF this] Some PlaceHolder show ?thesis by (cases "n = s") simp_all
    qed
  qed
qed

lemma fixup_parents_from_parent:
  "fixup_parents_from a ss d = (p, d') \<Longrightarrow>
   p = Root \<or> (\<exists>s l. p = Named s \<and> s \<in> set ss \<and> d' s = Some (Logger l))"
proof (induction ss arbitrary: d)
  case Nil
  then show ?case by simp
next
  case (Cons s ss)
  show ?case
  proof (cases "d s")
    case None
    with Cons.prems have "fixup_parents_from a ss (d(s \<mapsto> PlaceHolder [a])) = (p, d')"
      by simp
    from Cons.IH [OF this] show ?thesis by auto
  next
    case (Some e)
    show ?thesis
    proof (cases e)
      case (Logger x)
      with Some Cons.prems show ?thesis by auto
    next
      case (PlaceHolder cs)
      with Some Cons.prems
      have "fixup_parents_from a ss
          (d(s \<mapsto> PlaceHolder (if a \<in> set cs then cs else cs @ [a]))) = (p, d')"
        by simp
      from Cons.IH [OF this] show ?thesis by auto
    qed
  qed
qed

lemma fixup_parents_from_holders:
  "fixup_parents_from a ss d = (p, d') \<Longrightarrow> holders_ok d \<Longrightarrow>
   \<forall>s\<in>set ss. length s < length a \<Longrightarrow> holders_ok d'"
proof (induction ss arbitrary: d)
  case Nil
  then show ?case by simp
next
  case (Cons s ss)
  have len: "length s < length a" and rest: "\<forall>s\<in>set ss. length s < length a"
    using Cons.prems(3) by simp_all
  show ?case
  proof (cases "d s")
    case None
    with Cons.prems have run: "fixup_parents_from a ss (d(s \<mapsto> PlaceHolder [a])) = (p, d')"
      by simp
    have "holders_ok (d(s \<mapsto> PlaceHolder [a]))"
      using Cons.prems(2) len by (auto simp: holders_ok_def)
    with run show ?thesis using rest by (rule Cons.IH)
  next
    case (Some e)
    show ?thesis
    proof (cases e)
      case (Logger x)
      with Some Cons.prems show ?thesis by simp
    next
      case (PlaceHolder cs)
      with Some Cons.prems
      have run: "fixup_parents_from a ss
          (d(s \<mapsto> PlaceHolder (if a \<in> set cs then cs else cs @ [a]))) = (p, d')"
        by simp
      have "holders_ok (d(s \<mapsto> PlaceHolder (if a \<in> set cs then cs else cs @ [a])))"
        using Cons.prems(2) len Some PlaceHolder by (auto simp: holders_ok_def)
      with run show ?thesis using rest by (rule Cons.IH)
    qed
  qed
qed

lemma fixupParents_wf:
  assumes "wf_but a st"
  shows "wf_logging (fixupParents a st)"
proof -
  obtain p d' where f: "fixup_parents_from a (dotted_prefixes a) (loggerDict st) = (p, d')"
    by (cases "fixup_parents_from a (dotted_prefixes a) (loggerDict st)")
  from assms obtain la where la: "loggerDict st a = Some (Logger la)"
    by (auto simp: wf_but_def)
  have same: "(d' n = Some (Logger l)) = (loggerDict st n = Some (Logger l))" for n l
    using f by (rule fixup_parents_from_loggers)
  have d'a: "d' a = Some (Logger la)" using la by (simp add: same)
  let ?d = "d'(a \<mapsto> Logger (la\<lparr>lg_parent := Some p\<rparr>))"
  have st': "fixupParents a st =
      st\<lparr>loggerDict := ?d\<rparr>"
    by (simp add: fixupParents_def f d'a update_logger.simps)
  have logger_kept: "\<exists>lq. ?d q = Some (Logger lq)" if "loggerDict st q = Some (Logger l)" for q l
    using that by (cases "q = a") (simp_all add: same)
  have "parent_ok ?d n l" if n: "?d n = Some (Logger l)" for n l
  proof (cases "n = a")
    case True
    with n have l: "l = la\<lparr>lg_parent := Some p\<rparr>" by simp
    from fixup_parents_from_parent [OF f] show ?thesis
    proof
      assume "p = Root"
      then show ?thesis by (simp add: parent_ok_def l)
    next
      assume "\<exists>s l. p = Named s \<and> s \<in> set (dotted_prefixes a) \<and> d' s = Some (Logger l)"
      then obtain s ls where s: "p = Named s" "s \<in> set (dotted_prefixes a)"
          "d' s = Some (Logger ls)"
        by blast
      from s(2) have "length s < length a" by (rule dotted_prefixes_shorter)
      moreover from this s(3) have "?d s = Some (Logger ls)" by auto
      ultimately show ?thesis using True by (auto simp: parent_ok_def l s(1))
    qed
  next
    case False
    with n have "loggerDict st n = Some (Logger l)" by (simp add: same)
    with assms False have "parent_ok (loggerDict st) n l" by (simp add: wf_but_def)
    then show ?thesis
      unfolding parent_ok_def using logger_kept by blast
  qed
  moreover have "holders_ok ?d"
  proof -
    have "holders_ok d'"
      using f
    proof (rule fixup_parents_from_holders)
      show "holders_ok (loggerDict st)" using assms by (simp add: wf_but_def)
      show "\<forall>s\<in>set (dotted_prefixes a). length s < length a"
        by (simp add: dotted_prefixes_shorter)
    qed
    then show ?thesis by (auto simp: holders_ok_def)
  qed
  moreover have "lg_parent (root_logger st) = None" using assms by (simp add: wf_but_def)
  ultimately show ?thesis by (simp add: wf_logging_def st')
qed

lemma update_logger_Named_root [simp]:
  "root_logger (update_logger (Named n) f st) = root_logger st"
  by (auto simp: update_logger.simps split: option.splits entry.splits)

lemma update_logger_Named_holder:
  "(loggerDict (update_logger (Named n) f st) m = Some (PlaceHolder cs)) =
   (loggerDict st m = Some (PlaceHolder cs))"
  by (auto simp: update_logger.simps split: option.splits entry.splits)

lemma update_logger_Named_logger:
  "loggerDict (update_logger (Named n) f st) m = Some (Logger l) \<Longrightarrow>
   (m = n \<and> (\<exists>l0. loggerDict st m = Some (Logger l0) \<and> l = f l0)) \<or>
   (m \<noteq> n \<and> loggerDict st m = Some (Logger l))"
  by (auto simp: update_logger.simps split: option.splits entry.splits if_splits)

lemma update_logger_Named_is_logger:
  "loggerDict st q = Some (Logger lq) \<Longrightarrow>
   \<exists>lq'. loggerDict (update_logger (Named n) f st) q = Some (Logger lq')"
  by (auto simp: update_logger.simps split: option.splits entry.splits)

lemma parent_ok_update:
  "parent_ok (loggerDict st) m l \<Longrightarrow> parent_ok (loggerDict (update_logger (Named n) f st)) m l"
  unfolding parent_ok_def using update_logger_Named_is_logger by blast

lemma holders_ok_update:
  "holders_ok (loggerDict (update_logger (Named n) f st)) = holders_ok (loggerDict st)"
  by (simp add: holders_ok_def update_logger_Named_holder)

lemma wf_but_update_self:
  assumes "wf_but a st"
  shows "wf_but a (update_logger (Named a) f st)"
proof -
  have "parent_ok (loggerDict (update_logger (Named a) f st)) n l"
    if "n \<noteq> a" "loggerDict (update_logger (Named a) f st) n = Some (Logger l)" for n l
  proof -
    from update_logger_Named_logger [OF that(2)] that(1)
    have "loggerDict st n = Some (Logger l)" by auto
    with assms that(1) have "parent_ok (loggerDict st) n l" by (simp add: wf_but_def)
    then show ?thesis by (rule parent_ok_update)
  qed
  moreover from assms have "\<exists>l. loggerDict (update_logger (Named a) f st) a = Some (Logger l)"
    using update_logger_Named_is_logger by (fastforce simp: wf_but_def)
  ultimately show ?thesis
    using assms by (simp add: wf_but_def holders_ok_update)
qed

lemma wf_but_update_child:
  assumes "wf_but a st" "length a < length c"
  shows "wf_but a (update_logger (Named c) (\<lambda>l. l\<lparr>lg_parent := Some (Named a)\<rparr>) st)"
proof -
  let ?st = "update_logger (Named c) (\<lambda>l. l\<lparr>lg_parent := Some (Named a)\<rparr>) st"
  from assms(1) obtain la where la: "loggerDict st a = Some (Logger la)"
    by (auto simp: wf_but_def)
  then obtain la' where la': "loggerDict ?st a = Some (Logger la')"
    using update_logger_Named_is_logger by blast
  have "parent_ok (loggerDict ?st) n l"
    if "n \<noteq> a" "loggerDict ?st n = Some (Logger l)" for n l
  proof -
    from update_logger_Named_logger [OF that(2)]
    show ?thesis
    proof
      assume "n = c \<and> (\<exists>l0. loggerDict st n = Some (Logger l0) \<and>
        l = l0\<lparr>lg_parent := Some (Named a)\<rparr>)"
      with assms(2) la' show ?thesis by (auto simp: parent_ok_def)
    next
      assume "n \<noteq> c \<and> loggerDict st n = Some (Logger l)"
      with assms(1) that(1) have "parent_ok (loggerDict st) n l" by (simp add: wf_but_def)
      then show ?thesis by (rule parent_ok_update)
    qed
  qed
  with la' assms(1) show ?thesis
    by (simp add: wf_but_def holders_ok_update)
qed

lemma fixupChildren_wf_but:
  "wf_but a st \<Longrightarrow> \<forall>c\<in>set cs. length a < length c \<Longrightarrow> wf_but a (fixupChildren a cs st)"
proof (induction cs arbitrary: st)
  case Nil
  then show ?case by simp
next
  case (Cons c cs)
  let ?st = "case logger_at st (Named c) of
          None \<Rightarrow> st
        | Some lc \<Rightarrow>
            (case lg_parent lc of
               None \<Rightarrow> st
             | Some p \<Rightarrow>
                 if take (length a) (ref_name p) \<noteq> a then
                   update_logger (Named c) (\<lambda>l. l\<lparr>lg_parent := Some (Named a)\<rparr>)
                     (update_logger (Named a) (\<lambda>l. l\<lparr>lg_parent := Some p\<rparr>) st)
                 else st)"
  have "wf_but a ?st"
  proof (cases "logger_at st (Named c)")
    case None
    with Cons.prems(1) show ?thesis by simp
  next
    case (Some lc)
    show ?thesis
    proof (cases "lg_parent lc")
      case None
      with Some Cons.prems(1) show ?thesis by simp
    next
      case (Some p)
      have "length a < length c" using Cons.prems(2) by simp
      with Cons.prems(1)
      have "wf_but a (update_logger (Named c) (\<lambda>l. l\<lparr>lg_parent := Some (Named a)\<rparr>)
          (update_logger (Named a) (\<lambda>l. l\<lparr>lg_parent := Some p\<rparr>) st))"
        by (intro wf_but_update_child wf_but_update_self)
      with Some \<open>logger_at st (Named c) = Some lc\<close> Cons.prems(1) show ?thesis by simp
    qed
  qed
  moreover have "\<forall>c\<in>set cs. length a < length c" using Cons.prems(2) by simp
  ultimately have "wf_but a (fixupChildren a cs ?st)" by (rule Cons.IH)
  then show ?case by simp
qed

lemma wf_but_new:
  assumes "wf_logging st" "\<forall>l. loggerDict st a \<noteq> Some (Logger l)"
  shows "wf_but a (st\<lparr>loggerDict := (loggerDict st)(a \<mapsto> Logger new_logger)\<rparr>)"
proof -
  have "parent_ok ((loggerDict st)(a \<mapsto> Logger new_logger)) n l"
    if "n \<noteq> a" "loggerDict st n = Some (Logger l)" for n l
  proof -
    have kept: "\<exists>lq'. ((loggerDict st)(a \<mapsto> Logger new_logger)) q = Some (Logger lq')"
      if "loggerDict st q = Some (Logger lq)" for q lq
      using that by (cases "q = a") simp_all
    from assms(1) that(2) have "parent_ok (loggerDict st) n l" by (simp add: wf_logging_def)
    then show ?thesis unfolding parent_ok_def using kept by blast
  qed
  moreover have "holders_ok ((loggerDict st)(a \<mapsto> Logger new_logger))"
  proof -
    have "holders_ok (loggerDict st)" using assms(1) by (simp add: wf_logging_def)
    then show ?thesis unfolding holders_ok_def by (simp split: if_splits)
  qed
  moreover have "lg_parent (root_logger st) = None" using assms(1) by (simp add: wf_logging_def)
  ultimately show ?thesis by (simp add: wf_but_def)
qed

lemma getLogger_wf:
  assumes "wf_logging st"
  shows "wf_logging (snd (getLogger name st))"
proof (cases "name = [] \<or> name = ''root''")
  case True
  with assms show ?thesis by (simp add: getLogger_def)
next
  case False
  show ?thesis
  proof (cases "loggerDict st name")
    case None
    then have "wf_but name (st\<lparr>loggerDict := (loggerDict st)(name \<mapsto> Logger new_logger)\<rparr>)"
      using assms by (intro wf_but_new) simp_all
    then show ?thesis using False None by (simp add: getLogger_def fixupParents_wf)
  next
    case (Some e)
    show ?thesis
    proof (cases e)
      case (Logger l)
      with Some False assms show ?thesis by (simp add: getLogger_def)
    next
      case (PlaceHolder cs)
      with Some have "wf_but name (st\<lparr>loggerDict := (loggerDict st)(name \<mapsto> Logger new_logger)\<rparr>)"
        using assms by (intro wf_but_new) simp_all
      moreover have "\<forall>c\<in>set cs. length name < length c"
        using assms Some PlaceHolder by (auto simp: wf_logging_def holders_ok_def)
      ultimately have "wf_but name (fixupChildren name cs
          (st\<lparr>loggerDict := (loggerDict st)(name \<mapsto> Logger new_logger)\<rparr>))"
        by (rule fixupChildren_wf_but)
      then show ?thesis
        using False Some PlaceHolder by (simp add: getLogger_def fixupParents_wf)
    qed
  qed
qed

lemma update_logger_wf:
  assumes "wf_logging st" "\<And>l. lg_parent (f l) = lg_parent l"
  shows "wf_logging (update_logger c f st)"
proof (cases c)
  case Root
  with assms show ?thesis by (simp add: wf_logging_def update_logger.simps)
next
  case (Named n)
  have "parent_ok (loggerDict (update_logger (Named n) f st)) m l"
    if "loggerDict (update_logger (Named n) f st) m = Some (Logger l)" for m l
  proof -
    from update_logger_Named_logger [OF that]
    obtain l0 where "loggerDict st m = Some (Logger l0)" "lg_parent l = lg_parent l0"
      using assms(2) by auto
    with assms(1) have "parent_ok (loggerDict st) m l" by (simp add: wf_logging_def parent_ok_def)
    then show ?thesis by (rule parent_ok_update)
  qed
  with assms(1) show ?thesis by (simp add: Named wf_logging_def holders_ok_update)
qed

lemma wf_logging0: "wf_logging logging0"
  by (simp add: wf_logging_def logging0_def holders_ok_def)

lemma getLogger_other [simp]:
  "files (snd (getLogger name st)) = files st"
  "console (snd (getLogger name st)) = console st"
  "can_open (snd (getLogger name st)) = can_open st"
proof -
  have children: "files (fixupChildren a cs s) = files s \<and>
      console (fixupChildren a cs s) = console s \<and>
      can_open (fixupChildren a cs s) = can_open s" for a cs s
    by (induction cs arbitrary: s) (auto split: option.splits)
  have parents: "files (fixupParents a s) = files s \<and>
      console (fixupParents a s) = console s \<and>
      can_open (fixupParents a s) = can_open s" for a s
    by (simp add: fixupParents_def split: prod.splits)
  show "files (snd (getLogger name st)) = files st"
    "console (snd (getLogger name st)) = console st"
    "can_open (snd (getLogger name st)) = can_open st"
    by (simp_all add: getLogger_def children parents split: option.splits entry.splits)
qed

subsection \<open>Walks up the parents\<close>

lemma parent_smaller:
  assumes "wf_logging st" "logger_at st c = Some l" "lg_parent l = Some p"
  shows "ref_size p < ref_size c \<and> (\<exists>lp. logger_at st p = Some lp)"
proof (cases c)
  case Root
  with assms show ?thesis by (simp add: logger_at.simps wf_logging_def)
next
  case (Named n)
  with assms(2) have "loggerDict st n = Some (Logger l)"
    by (simp add: logger_at.simps split: option.splits entry.splits)
  with assms(1) have "parent_ok (loggerDict st) n l" by (simp add: wf_logging_def)
  with assms(3) show ?thesis
    by (auto simp: parent_ok_def Named logger_at.simps)
qed

lemma getEffectiveLevel_total:
  assumes "wf_logging st"
  shows "logger_at st c = Some l \<Longrightarrow> \<exists>e. getEffectiveLevel st c = Some e"
proof (induction "ref_size c" arbitrary: c l rule: less_induct)
  case less
  show ?case
  proof (cases "lg_level l \<noteq> 0 \<or> lg_parent l = None")
    case True
    with less.prems show ?thesis
      by (subst getEffectiveLevel.simps) auto
  next
    case False
    then obtain p where p: "lg_parent l = Some p" by auto
    from parent_smaller [OF assms less.prems p]
    obtain lp where "ref_size p < ref_size c" "logger_at st p = Some lp" by blast
    then obtain e where "getEffectiveLevel st p = Some e"
      using less.hyps by blast
    with False p less.prems show ?thesis
      by (subst getEffectiveLevel.simps) simp
  qed
qed

lemma hasHandlers_same:
  assumes "wf_logging st"
    and same: "\<And>c. logger_at st c = None \<Longrightarrow> logger_at st' c = None"
      "\<And>c l. logger_at st c = Some l \<Longrightarrow>
         \<exists>l'. logger_at st' c = Some l' \<and> lg_handlers l' = lg_handlers l \<and>
           lg_propagate l' = lg_propagate l \<and> lg_parent l' = lg_parent l"
  shows "hasHandlers st' c = hasHandlers st c"
proof (induction "ref_size c" arbitrary: c rule: less_induct)
  case less
  show ?case
  proof (cases "logger_at st c")
    case None
    then have "logger_at st' c = None" by (rule same(1))
    with None show ?thesis
      by (simp add: hasHandlers.simps [of st' c] hasHandlers.simps [of st c])
  next
    case (Some l)
    from same(2) [OF this] obtain l' where l': "logger_at st' c = Some l'"
        "lg_handlers l' = lg_handlers l" "lg_propagate l' = lg_propagate l"
        "lg_parent l' = lg_parent l"
      by blast
    show ?thesis
    proof (cases "lg_parent l")
      case None
      with Some l' show ?thesis
        by (simp add: hasHandlers.simps [of st' c] hasHandlers.simps [of st c])
    next
      case (Some p)
      from parent_smaller [OF assms(1) \<open>logger_at st c = Some l\<close> Some]
      have "ref_size p < ref_size c" by blast
      then have "hasHandlers st' p = hasHandlers st p" by (rule less.hyps)
      with Some \<open>logger_at st c = Some l\<close> l' show ?thesis
        by (simp add: hasHandlers.simps [of st' c] hasHandlers.simps [of st c])
    qed
  qed
qed

lemma call_handlers_from_none:
  assumes "wf_logging st"
  shows "hasHandlers st c = Some False \<Longrightarrow>
    \<forall>c'. ref_size c' \<le> ref_size c \<longrightarrow> logger_at st' c' = logger_at st c' \<Longrightarrow>
    call_handlers_from c r found st' = Some (found, st')"
proof (induction "ref_size c" arbitrary: c rule: less_induct)
  case less
  from less.prems(1) obtain l where l: "logger_at st c = Some l"
    by (subst (asm) hasHandlers.simps) (auto split: option.splits)
  with less.prems(2) have l': "logger_at st' c = Some l" by simp
  from less.prems(1) l have h: "lg_handlers l = []"
    by (subst (asm) hasHandlers.simps) (auto split: if_splits)
  show ?case
  proof (cases "lg_propagate l \<and> lg_parent l \<noteq> None")
    case False
    with l' h show ?thesis
      by (subst call_handlers_from.simps) auto
  next
    case True
    then obtain p where p: "lg_parent l = Some p" by auto
    from parent_smaller [OF assms l p] have small: "ref_size p < ref_size c" by blast
    from less.prems(1) l h True p have "hasHandlers st p = Some False"
      by (subst (asm) hasHandlers.simps) simp
    moreover have "\<forall>c'. ref_size c' \<le> ref_size p \<longrightarrow> logger_at st' c' = logger_at st c'"
      using less.prems(2) small by simp
    ultimately have "call_handlers_from p r found st' = Some (found, st')"
      using small less.hyps by blast
    with l' h True p show ?thesis
      by (subst call_handlers_from.simps) simp
  qed
qed

lemma logger_at_outputs [simp]:
  "logger_at (st\<lparr>files := fs, console := co\<rparr>) c = logger_at st c"
  by (cases c) (simp_all add: logger_at.simps)

lemma handle_all_file_console:
  assumes "l \<le> r_levelno r"
  shows "handle_all [file_handler log_file l, console_handler l] r st =
    st\<lparr>files := (files st)(log_file := files st log_file @ [format_record r]),
       console := console st @ [format_record r]\<rparr>"
  using assms by (simp add: emit_def file_handler_def console_handler_def)

lemma callHandlers_own_only:
  assumes wf: "wf_logging st"
    and fresh: "hasHandlers st c = Some False"
    and l2: "logger_at st2 c = Some l2"
      "lg_handlers l2 = [file_handler log_file l, console_handler l]"
    and same: "\<And>lc. logger_at st c = Some lc \<Longrightarrow>
        lg_propagate l2 = lg_propagate lc \<and> lg_parent l2 = lg_parent lc"
      "\<And>c'. c' \<noteq> c \<Longrightarrow> logger_at st2 c' = logger_at st c'"
    and lev: "l \<le> r_levelno r"
  shows "callHandlers c r st2 =
    Some (st2\<lparr>files := (files st2)(log_file := files st2 log_file @ [format_record r]),
        console := console st2 @ [format_record r]\<rparr>)"
proof -
  let ?st3 = "st2\<lparr>files := (files st2)(log_file := files st2 log_file @ [format_record r]),
        console := console st2 @ [format_record r]\<rparr>"
  have st3: "handle_all (lg_handlers l2) r st2 = ?st3"
    unfolding l2(2) using lev by (rule handle_all_file_console)
  from fresh obtain lc where lc: "logger_at st c = Some lc"
    by (subst (asm) hasHandlers.simps) (auto split: option.splits)
  from fresh lc have h: "lg_handlers lc = []"
    by (subst (asm) hasHandlers.simps) (auto split: if_splits)
  have pp: "lg_propagate l2 = lg_propagate lc" "lg_parent l2 = lg_parent lc"
    using same(1) [OF lc] by simp_all
  have "call_handlers_from c r 0 st2 = Some (2, ?st3)"
  proof (cases "lg_propagate lc \<and> lg_parent lc \<noteq> None")
    case False
    with l2 pp st3 show ?thesis
      by (subst call_handlers_from.simps) (auto simp del: handle_all.simps)
  next
    case True
    then obtain p where p: "lg_parent lc = Some p" by auto
    from parent_smaller [OF wf lc p] have small: "ref_size p < ref_size c" by blast
    from fresh lc h True p have "hasHandlers st p = Some False"
      by (subst (asm) hasHandlers.simps) simp
    moreover have "\<forall>c'. ref_size c' \<le> ref_size p \<longrightarrow> logger_at ?st3 c' = logger_at st c'"
    proof (intro allI impI)
      fix c' assume "ref_size c' \<le> ref_size p"
      with small have "c' \<noteq> c" by auto
      then show "logger_at ?st3 c' = logger_at st c'" by (simp add: same(2))
    qed
    ultimately have "call_handlers_from p r found ?st3 = Some (found, ?st3)" for found
      using wf call_handlers_from_none by blast
    with l2 pp st3 True p show ?thesis
      by (subst call_handlers_from.simps) (simp del: handle_all.simps)
  qed
  then show ?thesis by (simp add: callHandlers_def)
qed

lemma setLevel_wf: "wf_logging st \<Longrightarrow> wf_logging (setLevel c l st)"
  unfolding setLevel_def by (rule update_logger_wf) simp_all

lemma addHandler_wf: "wf_logging st \<Longrightarrow> wf_logging (addHandler c h st)"
  unfolding addHandler_def by (rule update_logger_wf) simp_all

lemma setup_logger_wf:
  assumes "wf_logging st" "setup_logger name log_file level st = Some (res, st')"
  shows "wf_logging st'"
proof -
  have "wf_logging (snd (getLogger name st))" using assms(1) by (rule getLogger_wf)
  then show ?thesis
    using assms(2)
    by (auto simp: setup_logger_def Let_def setLevel_wf addHandler_wf
        split: prod.splits option.splits bool.splits if_splits)
qed

subsection \<open>The parents of loggers with dotted names\<close>

text \<open>
  The parent of a logger is the pointer that the manager has set, not a prefix of the
  name: \<open>a..b\<close> has the one prefix \<open>a.\<close>, so that its parent is \<open>a.\<close> once that
  logger exists and the root logger before, also when \<open>a\<close> exists; and \<open>root.x\<close> has
  the root logger as its parent, the name \<open>root\<close> holding a place holder.
\<close>

lemma dotted_prefixes_a_b: "dotted_prefixes ''a..b'' = [''a.'']"
  by (simp add: dotted_prefixes.simps)

lemma dotted_prefixes_root_x: "dotted_prefixes ''root.x'' = [''root'']"
  by (simp add: dotted_prefixes.simps)

lemma parents_of_a_b:
  "let st = snd (getLogger ''a.'' (snd (getLogger ''a..b'' (snd (getLogger ''a'' logging0)))))
   in map_option lg_parent (logger_at st (Named ''a..b'')) = Some (Some (Named ''a.'')) \<and>
      map_option lg_parent (logger_at st (Named ''a.'')) = Some (Some (Named ''a'')) \<and>
      map_option lg_parent (logger_at st (Named ''a'')) = Some (Some Root)"
  by (simp add: getLogger_def logging0_def fixupParents_def fixupChildren.simps
      dotted_prefixes.simps update_logger.simps logger_at.simps new_logger_def Let_def)

lemma parents_of_a_b_late:
  "let st = snd (getLogger ''a'' (snd (getLogger ''a..b'' logging0)))
   in map_option lg_parent (logger_at st (Named ''a..b'')) = Some (Some Root) \<and>
      map_option lg_parent (logger_at st (Named ''a'')) = Some (Some Root) \<and>
      loggerDict st ''a.'' = Some (PlaceHolder [''a..b''])"
  by (simp add: getLogger_def logging0_def fixupParents_def fixupChildren.simps
      dotted_prefixes.simps update_logger.simps logger_at.simps new_logger_def Let_def)

lemma parent_of_root_x:
  "let st = snd (getLogger ''root.x'' logging0)
   in map_option lg_parent (logger_at st (Named ''root.x'')) = Some (Some Root) \<and>
      loggerDict st ''root'' = Some (PlaceHolder [''root.x'']) \<and>
      fst (getLogger ''root'' st) = Root"
  by (simp add: getLogger_def logging0_def fixupParents_def fixupChildren.simps
      dotted_prefixes.simps update_logger.simps logger_at.simps new_logger_def Let_def)

subsection \<open>Handlers found on the way up\<close>

text \<open>
  When the logger of the name, or a parent that it propagates to, has a handler,
  \<open>setup_logger\<close> sets the level of the logger and attaches nothing; the file is
  not opened.
\<close>

lemma setup_logger_handlers_found:
  assumes "wf_logging st"
    and "hasHandlers (snd (getLogger name st)) (logger_ref name) = Some True"
    and "check_level level = Some lv"
  shows "setup_logger name log_file level st =
    Some (Inr (logger_ref name), setLevel (logger_ref name) lv (snd (getLogger name st)))"
proof -
  define c where "c = logger_ref name"
  define sta where "sta = snd (getLogger name st)"
  have get: "getLogger name st = (c, sta)"
    unfolding c_def sta_def using fst_getLogger [of name st]
    by (cases "getLogger name st") simp
  have "wf_logging sta" unfolding sta_def using assms(1) by (rule getLogger_wf)
  then have "hasHandlers (setLevel c lv sta) c = hasHandlers sta c"
    by (rule hasHandlers_same) (auto simp: setLevel_def logger_at_update_logger)
  with assms(2) have "hasHandlers (setLevel c lv sta) c = Some True"
    by (simp add: c_def sta_def)
  with assms(3) show ?thesis
    unfolding c_def [symmetric] sta_def [symmetric] by (simp add: setup_logger_def get)
qed

subsection \<open>Asking for the same logger again\<close>

text \<open>
  Claim C7, as the code has it. When the logger of the name already has handlers and the
  level is a level name, \<open>setup_logger\<close> returns the logger and attaches nothing: all it
  changes in the state is the level of this logger, which it sets to the level asked
  for. Hence, in a state that the manager has built, when the logger of the name and the
  parents it propagates to have no handler and the file can be opened, two calls for the
  same name and file return the logger, which then has the one file handler and the one
  console handler of the first call; no file has been written, and a log call at a level
  above 0 that passes the level of the logger and the level of the handlers adds
  exactly one line to the file.
\<close>

theorem setup_logger_again_keeps_handlers:
  "(logger_at st (logger_ref name) = Some l \<and> lg_handlers l \<noteq> [] \<and>
    check_level level = Some lv \<longrightarrow>
      setup_logger name log_file level st =
        Some (Inr (logger_ref name),
          update_logger (logger_ref name) (\<lambda>lg. lg\<lparr>lg_level := lv\<rparr>) st)) \<and>
   (wf_logging st0 \<and>
    hasHandlers (snd (getLogger name st0)) (logger_ref name) = Some False \<and>
    can_open st0 log_file \<and>
    check_level level1 = Some l1 \<and> check_level level2 = Some l2 \<longrightarrow>
      (\<exists>st1 st2 l' e.
         setup_logger name log_file level1 st0 = Some (Inr (logger_ref name), st1) \<and>
         setup_logger name log_file level2 st1 = Some (Inr (logger_ref name), st2) \<and>
         logger_at st2 (logger_ref name) = Some l' \<and>
         lg_handlers l' = [file_handler log_file l1, console_handler l1] \<and>
         files st2 = files st0 \<and>
         getEffectiveLevel st2 (logger_ref name) = Some e \<and>
         (0 < levelno \<and> e \<le> levelno \<and> l1 \<le> levelno \<longrightarrow>
            (\<exists>st3. logger_log (logger_ref name) levelno asctime message st2 = Some st3 \<and>
               files st3 log_file =
                 files st0 log_file @
                   [format_record \<lparr>r_asctime = asctime, r_name = ref_name (logger_ref name),
                      r_levelno = levelno, r_message = message\<rparr>]))))"
proof (intro conjI impI; (elim conjE)?)
  assume "logger_at st (logger_ref name) = Some l" "lg_handlers l \<noteq> []"
    "check_level level = Some lv"
  then show "setup_logger name log_file level st =
      Some (Inr (logger_ref name),
        update_logger (logger_ref name) (\<lambda>lg. lg\<lparr>lg_level := lv\<rparr>) st)"
    unfolding setLevel_def [symmetric] by (rule setup_logger_existing)
next
  define c where "c = logger_ref name"
  define sta where "sta = snd (getLogger name st0)"
  define rec where "rec = \<lparr>r_asctime = asctime, r_name = ref_name c,
    r_levelno = levelno, r_message = message\<rparr>"
  assume wf0: "wf_logging st0"
    and fresh0: "hasHandlers (snd (getLogger name st0)) (logger_ref name) = Some False"
    and can: "can_open st0 log_file"
    and lv: "check_level level1 = Some l1" "check_level level2 = Some l2"
  have get: "getLogger name st0 = (c, sta)"
    unfolding c_def sta_def using fst_getLogger [of name st0]
    by (cases "getLogger name st0") simp
  have wfa: "wf_logging sta" unfolding sta_def using wf0 by (rule getLogger_wf)
  have fresh: "hasHandlers sta c = Some False" using fresh0 by (simp add: c_def sta_def)
  then obtain la where la: "logger_at sta c = Some la"
    by (subst (asm) hasHandlers.simps) (auto split: option.splits)
  from fresh la have ha: "lg_handlers la = []"
    by (subst (asm) hasHandlers.simps) (auto split: if_splits)
  define stl where "stl = setLevel c l1 sta"
  define st1 where "st1 = addHandler c (console_handler l1)
      (addHandler c (file_handler log_file l1) stl)"
  define st2 where "st2 = setLevel c l2 st1"
  define l1' where "l1' = la\<lparr>lg_level := l1,
      lg_handlers := [file_handler log_file l1, console_handler l1]\<rparr>"
  have "hasHandlers stl c = hasHandlers sta c"
    using wfa
    by (rule hasHandlers_same) (auto simp: stl_def setLevel_def logger_at_update_logger)
  with fresh have freshl: "hasHandlers stl c = Some False" by simp
  have "can_open stl log_file" using can by (simp add: stl_def setLevel_def sta_def)
  with freshl lv(1) have first: "setup_logger name log_file level1 st0 = Some (Inr c, st1)"
    by (simp add: setup_logger_def get stl_def [symmetric] st1_def)
  have at1: "logger_at st1 c = Some l1'"
    using la ha
    by (simp add: st1_def stl_def addHandler_def setLevel_def logger_at_update_logger l1'_def)
  have "lg_handlers l1' \<noteq> []" by (simp add: l1'_def)
  with at1 have second: "setup_logger name log_file level2 st1 = Some (Inr c, st2)"
    unfolding c_def st2_def using lv(2) by (intro setup_logger_existing) simp_all
  have at2: "logger_at st2 c = Some (l1'\<lparr>lg_level := l2\<rparr>)"
    using at1 by (simp add: st2_def setLevel_def logger_at_update_logger)
  have other: "logger_at st2 c' = logger_at sta c'" if "c' \<noteq> c" for c'
    using that
    by (simp add: st2_def st1_def stl_def addHandler_def setLevel_def logger_at_update_logger)
  have files2: "files st2 = files st0"
    by (simp add: st2_def st1_def stl_def addHandler_def setLevel_def sta_def)
  have "wf_logging st2"
    unfolding st2_def st1_def stl_def using wfa by (intro setLevel_wf addHandler_wf)
  then obtain e where e: "getEffectiveLevel st2 c = Some e"
    using at2 getEffectiveLevel_total by blast
  have written: "\<exists>st3. logger_log c levelno asctime message st2 = Some st3 \<and>
      files st3 log_file = files st0 log_file @ [format_record rec]"
    if "0 < levelno" "e \<le> levelno" "l1 \<le> levelno"
  proof -
    have "callHandlers c rec st2 =
        Some (st2\<lparr>files := (files st2)(log_file := files st2 log_file @ [format_record rec]),
          console := console st2 @ [format_record rec]\<rparr>)"
      using wfa fresh at2
    proof (rule callHandlers_own_only)
      show "lg_handlers (l1'\<lparr>lg_level := l2\<rparr>) =
          [file_handler log_file l1, console_handler l1]"
        by (simp add: l1'_def)
      show "lg_propagate (l1'\<lparr>lg_level := l2\<rparr>) = lg_propagate lc \<and>
          lg_parent (l1'\<lparr>lg_level := l2\<rparr>) = lg_parent lc"
        if "logger_at sta c = Some lc" for lc
        using that la by (simp add: l1'_def)
      show "logger_at st2 c' = logger_at sta c'" if "c' \<noteq> c" for c'
        using that by (rule other)
      show "l1 \<le> r_levelno rec" using that(3) by (simp add: rec_def)
    qed
    with e that(1,2) show ?thesis
      by (simp add: logger_log_def rec_def [symmetric] files2)
  qed
  have hd2: "lg_handlers (l1'\<lparr>lg_level := l2\<rparr>) =
      [file_handler log_file l1, console_handler l1]"
    by (simp add: l1'_def)
  have final: "0 < levelno \<and> e \<le> levelno \<and> l1 \<le> levelno \<longrightarrow>
      (\<exists>st3. logger_log c levelno asctime message st2 = Some st3 \<and>
        files st3 log_file = files st0 log_file @ [format_record rec])"
    using written by blast
  show "\<exists>st1 st2 l' e.
         setup_logger name log_file level1 st0 = Some (Inr (logger_ref name), st1) \<and>
         setup_logger name log_file level2 st1 = Some (Inr (logger_ref name), st2) \<and>
         logger_at st2 (logger_ref name) = Some l' \<and>
         lg_handlers l' = [file_handler log_file l1, console_handler l1] \<and>
         files st2 = files st0 \<and>
         getEffectiveLevel st2 (logger_ref name) = Some e \<and>
         (0 < levelno \<and> e \<le> levelno \<and> l1 \<le> levelno \<longrightarrow>
            (\<exists>st3. logger_log (logger_ref name) levelno asctime message st2 = Some st3 \<and>
               files st3 log_file =
                 files st0 log_file @
                   [format_record \<lparr>r_asctime = asctime, r_name = ref_name (logger_ref name),
                      r_levelno = levelno, r_message = message\<rparr>]))"
    unfolding c_def [symmetric] rec_def [symmetric]
    using first second at2 hd2 files2 e final by blast
qed

lemma hasHandlers_X_fresh:
  "hasHandlers (snd (getLogger ''X'' logging0)) (Named ''X'') = Some False"
proof -
  let ?st = "logging0\<lparr>loggerDict := [''X'' \<mapsto> Logger (new_logger\<lparr>lg_parent := Some Root\<rparr>)]\<rparr>"
  have "hasHandlers ?st Root = Some False"
    by (subst hasHandlers.simps) (simp add: logging0_def logger_at.simps)
  then have "hasHandlers ?st (Named ''X'') = Some False"
    by (subst hasHandlers.simps) (simp add: new_logger_def logger_at.simps)
  then show ?thesis by (simp add: getLogger_X_logging0)
qed

lemma getEffectiveLevel_logging_X:
  "l \<noteq> 0 \<Longrightarrow> getEffectiveLevel (logging_X l) (Named ''X'') = Some l"
  by (subst getEffectiveLevel.simps) (simp add: logger_at_logging_X)

lemma callHandlers_logging_X:
  assumes "20 \<le> r_levelno r"
  shows "callHandlers (Named ''X'') r (logging_X l) =
    Some ((logging_X l)\<lparr>files := (files (logging_X l))
            (''app.log'' := files (logging_X l) ''app.log'' @ [format_record r]),
        console := console (logging_X l) @ [format_record r]\<rparr>)"
proof -
  have "wf_logging (snd (getLogger ''X'' logging0))"
    using wf_logging0 by (rule getLogger_wf)
  then show ?thesis
    using hasHandlers_X_fresh logger_at_logging_X
  proof (rule callHandlers_own_only)
    show "lg_handlers \<lparr>lg_level = l,
        lg_handlers = [file_handler ''app.log'' 20, console_handler 20],
        lg_propagate = True, lg_parent = Some Root\<rparr> =
        [file_handler ''app.log'' 20, console_handler 20]"
      by simp
    show "lg_propagate \<lparr>lg_level = l,
        lg_handlers = [file_handler ''app.log'' 20, console_handler 20],
        lg_propagate = True, lg_parent = Some Root\<rparr> = lg_propagate lc \<and>
      lg_parent \<lparr>lg_level = l,
        lg_handlers = [file_handler ''app.log'' 20, console_handler 20],
        lg_propagate = True, lg_parent = Some Root\<rparr> = lg_parent lc"
      if "logger_at (snd (getLogger ''X'' logging0)) (Named ''X'') = Some lc" for lc
      using that by (auto simp: getLogger_X_logging0 logger_at.simps new_logger_def)
    show "logger_at (logging_X l) c' = logger_at (snd (getLogger ''X'' logging0)) c'"
      if "c' \<noteq> Named ''X''" for c'
      using that
      by (cases c') (simp_all add: getLogger_X_logging0 logger_at.simps logging_X_def)
    show "20 \<le> r_levelno r" by (rule assms)
  qed
qed

lemma logger_log_logging_X_writes:
  assumes "l \<noteq> 0" "l \<le> 20"
  shows "\<exists>st3. logger_log (Named ''X'') 20 ''12:00'' ''ready'' (logging_X l) = Some st3 \<and>
    files st3 ''app.log'' = [''12:00 - X - INFO - ready''] \<and>
    console st3 = [''12:00 - X - INFO - ready'']"
proof -
  let ?r = "\<lparr>r_asctime = ''12:00'', r_name = ref_name (Named ''X''), r_levelno = 20,
    r_message = ''ready''\<rparr>"
  have line: "format_record ?r = ''12:00 - X - INFO - ready''"
    by (simp add: format_record_def level_name_def)
  have empty: "files (logging_X l) ''app.log'' = []" "console (logging_X l) = []"
    by (simp_all add: logging_X_def logging0_def)
  have "callHandlers (Named ''X'') ?r (logging_X l) =
    Some ((logging_X l)\<lparr>files := (files (logging_X l))
            (''app.log'' := files (logging_X l) ''app.log'' @ [format_record ?r]),
        console := console (logging_X l) @ [format_record ?r]\<rparr>)"
    by (rule callHandlers_logging_X) simp
  with assms have "logger_log (Named ''X'') 20 ''12:00'' ''ready'' (logging_X l) =
    Some ((logging_X l)\<lparr>files := (files (logging_X l))
            (''app.log'' := files (logging_X l) ''app.log'' @ [format_record ?r]),
        console := console (logging_X l) @ [format_record ?r]\<rparr>)"
    by (simp add: logger_log_def getEffectiveLevel_logging_X)
  then show ?thesis unfolding line empty by simp
qed

lemma logger_log_logging_X_silent:
  assumes "20 < l"
  shows "logger_log (Named ''X'') 20 ''12:00'' ''ready'' (logging_X l) = Some (logging_X l)"
  using assms by (simp add: logger_log_def getEffectiveLevel_logging_X)

theorem setup_logger_again_keeps_handlers_witness:
  "setup_logger ''X'' ''app.log'' ''ERROR'' (logging_X 20) =
     Some (Inr (Named ''X''), logging_X 40) \<and>
   wf_logging logging0 \<and>
   hasHandlers (snd (getLogger ''X'' logging0)) (Named ''X'') = Some False \<and>
   (\<exists>st3. logger_log (Named ''X'') 20 ''12:00'' ''ready'' (logging_X 10) = Some st3 \<and>
      files st3 ''app.log'' = [''12:00 - X - INFO - ready''])"
proof -
  have ref: "logger_ref ''X'' = Named ''X''" by (simp add: logger_ref_def)
  have lv: "check_level ''ERROR'' = Some 40" "check_level ''INFO'' = Some 20"
    "check_level ''DEBUG'' = Some 10"
    by (simp_all add: check_level_def)
  note inst = setup_logger_again_keeps_handlers
    [where st = "logging_X 20" and name = "''X''" and level = "''ERROR''" and lv = 40
      and l = "\<lparr>lg_level = 20, lg_handlers = [file_handler ''app.log'' 20, console_handler 20],
        lg_propagate = True, lg_parent = Some Root\<rparr>"
      and log_file = "''app.log''" and ?st0.0 = logging0
      and ?level1.0 = "''INFO''" and ?l1.0 = 20 and ?level2.0 = "''DEBUG''" and ?l2.0 = 10
      and levelno = 20 and asctime = "''12:00''" and message = "''ready''"]
  from inst [THEN conjunct1] have again:
    "setup_logger ''X'' ''app.log'' ''ERROR'' (logging_X 20) =
       Some (Inr (Named ''X''), logging_X 40)"
    by (simp add: ref lv logger_at_logging_X setLevel_logging_X setLevel_def [symmetric])
  have can: "can_open logging0 ''app.log''" by (simp add: logging0_def)
  from inst [THEN conjunct2] wf_logging0 hasHandlers_X_fresh can lv
  obtain st1 st2 e where
    s1: "setup_logger ''X'' ''app.log'' ''INFO'' logging0 = Some (Inr (Named ''X''), st1)"
    and s2: "setup_logger ''X'' ''app.log'' ''DEBUG'' st1 = Some (Inr (Named ''X''), st2)"
    and e: "getEffectiveLevel st2 (Named ''X'') = Some e"
    and w: "0 < (20::nat) \<and> e \<le> 20 \<and> (20::nat) \<le> 20 \<longrightarrow>
      (\<exists>st3. logger_log (Named ''X'') 20 ''12:00'' ''ready'' st2 = Some st3 \<and>
        files st3 ''app.log'' = files logging0 ''app.log'' @
          [format_record \<lparr>r_asctime = ''12:00'', r_name = ref_name (Named ''X''),
            r_levelno = 20, r_message = ''ready''\<rparr>])"
    unfolding ref by blast
  from s1 have st1: "st1 = logging_X 20" by (simp add: setup_logger_X_first)
  from s2 lv(3) have st2: "st2 = logging_X 10" by (simp add: st1 setup_logger_X_again)
  from e have "e = 10" by (simp add: st2 getEffectiveLevel_logging_X)
  with w have "\<exists>st3. logger_log (Named ''X'') 20 ''12:00'' ''ready'' (logging_X 10) = Some st3 \<and>
      files st3 ''app.log'' = [''12:00 - X - INFO - ready'']"
    by (simp add: st2 format_record_def level_name_def ref_name.simps logging0_def)
  with again wf_logging0 hasHandlers_X_fresh show ?thesis by blast
qed

text \<open>
  Claim C7 as it is written says that the logger comes back unchanged. The second call
  sets the level again: after \<open>setup_logger("X", "app.log", "INFO")\<close>, the call
  \<open>setup_logger("X", "app.log", "ERROR")\<close> returns the logger with the level
  \<open>ERROR\<close>, so that the state of the process differs and an \<open>INFO\<close> call, which wrote
  a line before the second call, writes nothing after it.
\<close>

theorem setup_logger_again_changes_level_counterexample:
  "setup_logger ''X'' ''app.log'' ''INFO'' logging0 = Some (Inr (Named ''X''), logging_X 20) \<and>
   setup_logger ''X'' ''app.log'' ''ERROR'' (logging_X 20) =
     Some (Inr (Named ''X''), logging_X 40) \<and>
   logging_X 40 \<noteq> logging_X 20 \<and>
   logger_log (Named ''X'') 20 ''12:00'' ''ready'' (logging_X 20) \<noteq> Some (logging_X 20) \<and>
   logger_log (Named ''X'') 20 ''12:00'' ''ready'' (logging_X 40) = Some (logging_X 40)"
proof -
  have "check_level ''ERROR'' = Some 40" by (simp add: check_level_def)
  then have again: "setup_logger ''X'' ''app.log'' ''ERROR'' (logging_X 20) =
      Some (Inr (Named ''X''), logging_X 40)"
    by (rule setup_logger_X_again)
  have "lg_level (the (logger_at (logging_X 40) (Named ''X''))) \<noteq>
      lg_level (the (logger_at (logging_X 20) (Named ''X'')))"
    by (simp add: logger_at_logging_X)
  then have differ: "logging_X 40 \<noteq> logging_X 20" by auto
  obtain st3 where "logger_log (Named ''X'') 20 ''12:00'' ''ready'' (logging_X 20) = Some st3"
    and "console st3 = [''12:00 - X - INFO - ready'']"
    using logger_log_logging_X_writes [of 20] by auto
  moreover have "console (logging_X 20) = []" by (simp add: logging_X_def logging0_def)
  ultimately have writes:
    "logger_log (Named ''X'') 20 ''12:00'' ''ready'' (logging_X 20) \<noteq> Some (logging_X 20)"
    by auto
  have silent: "logger_log (Named ''X'') 20 ''12:00'' ''ready'' (logging_X 40) =
      Some (logging_X 40)"
    by (rule logger_log_logging_X_silent) simp
  from setup_logger_X_first again differ writes silent show ?thesis by blast
qed

end
